theory Spec2Isabelle
  imports Main "HOL-Library.Sublist"
begin

section \<open>String primitives of the host language\<close>

text \<open>
  The validator works on JavaScript strings, which are sequences of UTF-16 code units.
  They are modelled as \<^typ>\<open>string\<close>, a \<^typ>\<open>char\<close> standing for the code unit of
  the same number: the model covers the strings whose code units are all below 256
  (U+0000 to U+00FF), and on these \<open>trim\<close>, \<open>toLowerCase\<close> and the other primitives
  below compute what the host language computes.
\<close>

abbreviation apostrophe :: char where
  "apostrophe \<equiv> CHR 0x27"

abbreviation dquote :: char where
  "dquote \<equiv> CHR 0x22"

abbreviation backslash :: char where
  "backslash \<equiv> CHR 0x5C"

text \<open>
  The white space that \<open>trim\<close> removes: TAB, LF, VT, FF, CR, SPACE and, above ASCII, the
  no-break space U+00A0. (The other white space and line terminator characters of the
  language, U+1680, U+2000 to U+200A, U+2028, U+2029, U+202F, U+205F, U+3000 and U+FEFF,
  are not below 256.)
\<close>

definition isWhitespace :: "char \<Rightarrow> bool" where
  "isWhitespace c =
     (c \<in> set [CHR '' '', CHR 0x09, CHR 0x0A, CHR 0x0B, CHR 0x0C, CHR 0x0D, CHR 0xA0])"

definition trim :: "string \<Rightarrow> string" where
  "trim s = rev (dropWhile isWhitespace (rev (dropWhile isWhitespace s)))"

text \<open>\<open>s.split(sep)\<close> for a one-character separator; the empty string gives \<open>[""]\<close>.\<close>

fun split :: "char \<Rightarrow> string \<Rightarrow> string list" where
  "split sep [] = [[]]"
| "split sep (c # cs) =
     (if c = sep then [] # split sep cs
      else (case split sep cs of w # ws \<Rightarrow> (c # w) # ws | [] \<Rightarrow> [[c]]))"

text \<open>\<open>s.indexOf(pat)\<close>: the first position where \<open>pat\<close> occurs, or \<open>-1\<close>.\<close>

fun indexOf :: "string \<Rightarrow> string \<Rightarrow> int" where
  "indexOf [] pat = (if pat = [] then 0 else - 1)"
| "indexOf (c # cs) pat =
     (if prefix pat (c # cs) then 0
      else (let r = indexOf cs pat in if r < 0 then - 1 else r + 1))"

definition includes_str :: "string \<Rightarrow> string \<Rightarrow> bool" where
  "includes_str s pat = (indexOf s pat \<noteq> - 1)"

definition startsWith :: "string \<Rightarrow> string \<Rightarrow> bool" where
  "startsWith s pat = prefix pat s"

text \<open>\<open>s.substring(a, b)\<close> clamps both indices to the string and swaps them if needed.\<close>

definition substring :: "string \<Rightarrow> int \<Rightarrow> int \<Rightarrow> string" where
  "substring s a b =
     (let n = int (length s);
          a' = max 0 (min a n);
          b' = max 0 (min b n);
          lo = min a' b';
          hi = max a' b'
      in take (nat (hi - lo)) (drop (nat lo) s))"

definition substringFrom :: "string \<Rightarrow> int \<Rightarrow> string" where
  "substringFrom s a = drop (nat (max 0 a)) s"

text \<open>
  \<open>toLowerCase\<close> maps each code unit by itself: \<open>A\<close> to \<open>Z\<close> go to \<open>a\<close> to \<open>z\<close>, the
  upper-case letters U+00C0 to U+00DE (all but the multiplication sign U+00D7) go to the
  letter 32 places up, and every other code unit below 256 stays.
\<close>

definition upperCaseLetters :: string where
  "upperCaseLetters =
     ''ABCDEFGHIJKLMNOPQRSTUVWXYZ'' @
     [CHR 0xC0, CHR 0xC1, CHR 0xC2, CHR 0xC3, CHR 0xC4, CHR 0xC5, CHR 0xC6,
      CHR 0xC7, CHR 0xC8, CHR 0xC9, CHR 0xCA, CHR 0xCB, CHR 0xCC, CHR 0xCD,
      CHR 0xCE, CHR 0xCF, CHR 0xD0, CHR 0xD1, CHR 0xD2, CHR 0xD3, CHR 0xD4,
      CHR 0xD5, CHR 0xD6, CHR 0xD8, CHR 0xD9, CHR 0xDA, CHR 0xDB, CHR 0xDC,
      CHR 0xDD, CHR 0xDE]"

definition lowerCaseLetters :: string where
  "lowerCaseLetters =
     ''abcdefghijklmnopqrstuvwxyz'' @
     [CHR 0xE0, CHR 0xE1, CHR 0xE2, CHR 0xE3, CHR 0xE4, CHR 0xE5, CHR 0xE6,
      CHR 0xE7, CHR 0xE8, CHR 0xE9, CHR 0xEA, CHR 0xEB, CHR 0xEC, CHR 0xED,
      CHR 0xEE, CHR 0xEF, CHR 0xF0, CHR 0xF1, CHR 0xF2, CHR 0xF3, CHR 0xF4,
      CHR 0xF5, CHR 0xF6, CHR 0xF8, CHR 0xF9, CHR 0xFA, CHR 0xFB, CHR 0xFC,
      CHR 0xFD, CHR 0xFE]"

definition toLowerChar :: "char \<Rightarrow> char" where
  "toLowerChar c =
     (case map_of (zip upperCaseLetters lowerCaseLetters) c of
        Some l \<Rightarrow> l
      | None \<Rightarrow> c)"

definition toLowerCase :: "string \<Rightarrow> string" where
  "toLowerCase s = map toLowerChar s"

text \<open>\<open>xs.join(sep)\<close>.\<close>

fun join :: "string \<Rightarrow> string list \<Rightarrow> string" where
  "join sep [] = []"
| "join sep [x] = x"
| "join sep (x # y # ys) = x @ sep @ join sep (y # ys)"

text \<open>The decimal rendering of a count inside a template literal.\<close>

definition digitChar :: "nat \<Rightarrow> char" where
  "digitChar d = ''0123456789'' ! d"

fun showNat :: "nat \<Rightarrow> string" where
  "showNat n = (if n < 10 then [digitChar n] else showNat (n div 10) @ [digitChar (n mod 10)])"

declare showNat.simps [simp del]

text \<open>The test \<open>/^\d+$/\<close>: one or more decimal digits and nothing else.\<close>

definition isDigit :: "char \<Rightarrow> bool" where
  "isDigit c = (c \<in> set ''0123456789'')"

definition isDigits :: "string \<Rightarrow> bool" where
  "isDigits v = (v \<noteq> [] \<and> list_all isDigit v)"

section \<open>Data model\<close>

text \<open>
  The interfaces \<open>GormTag\<close>, \<open>GoStruct\<close> and \<open>GormDiagnostic\<close> of the module \<open>./types\<close>,
  which \<open>parser.ts\<close> imports. The level of a diagnostic is one of the two string literals
  \<open>'error'\<close> and \<open>'warning'\<close>, and \<open>errorTag\<close> is optional.
\<close>

record GormTag =
  name :: string
  type :: string
  gormTag :: string

record GoStruct =
  name :: string
  fields' :: "GormTag list"

datatype Level = error | warning

record GormDiagnostic =
  structName :: string
  fieldName :: string
  tag :: string
  message :: string
  level :: Level
  errorTag :: "string option"

abbreviation Diag ::
  "string \<Rightarrow> string \<Rightarrow> string \<Rightarrow> string \<Rightarrow> Level \<Rightarrow> string option \<Rightarrow> GormDiagnostic" where
  "Diag sn fn t m l e \<equiv>
     \<lparr>structName = sn, fieldName = fn, tag = t, message = m, level = l, errorTag = e\<rparr>"

section \<open>Quote closure of a comment value\<close>

record QuoteScan =
  singleQuoteCount :: nat
  doubleQuoteCount :: nat
  inSingleQuote :: bool
  inDoubleQuote :: bool

text \<open>
  One iteration of the \<open>while\<close> loop of \<open>checkQuoteClosure\<close>. \<open>prev\<close> is
  \<open>value[i - 1]\<close>, absent when \<open>i = 0\<close>.
\<close>

definition quoteStep :: "char option \<Rightarrow> char \<Rightarrow> QuoteScan \<Rightarrow> QuoteScan" where
  "quoteStep prev c st =
     (if c = apostrophe \<and> \<not> inDoubleQuote st then
        (if prev \<noteq> Some backslash
         then st\<lparr>singleQuoteCount := singleQuoteCount st + 1,
                 inSingleQuote := \<not> inSingleQuote st\<rparr>
         else st)
      else if c = dquote \<and> \<not> inSingleQuote st then
        (if prev \<noteq> Some backslash
         then st\<lparr>doubleQuoteCount := doubleQuoteCount st + 1,
                 inDoubleQuote := \<not> inDoubleQuote st\<rparr>
         else st)
      else st)"

fun quoteLoop :: "char option \<Rightarrow> string \<Rightarrow> QuoteScan \<Rightarrow> QuoteScan" where
  "quoteLoop prev [] st = st"
| "quoteLoop prev (c # cs) st = quoteLoop (Some c) cs (quoteStep prev c st)"

definition quoteScan :: "string \<Rightarrow> QuoteScan" where
  "quoteScan v =
     quoteLoop None v
       \<lparr>singleQuoteCount = 0, doubleQuoteCount = 0,
        inSingleQuote = False, inDoubleQuote = False\<rparr>"

record QuoteClosure =
  hasError :: bool
  quoteType :: "string option"
  closureMessage :: "string option"

definition checkQuoteClosure :: "string \<Rightarrow> QuoteClosure" where
  "checkQuoteClosure v =
     (let st = quoteScan v in
      if singleQuoteCount st mod 2 \<noteq> 0 then
        \<lparr>hasError = True, quoteType = Some ''single'',
         closureMessage = Some (''Found '' @ showNat (singleQuoteCount st) @
           '' single quotes, expected even number for proper closure.'')\<rparr>
      else if doubleQuoteCount st mod 2 \<noteq> 0 then
        \<lparr>hasError = True, quoteType = Some ''double'',
         closureMessage = Some (''Found '' @ showNat (doubleQuoteCount st) @
           '' double quotes, expected even number for proper closure.'')\<rparr>
      else \<lparr>hasError = False, quoteType = None, closureMessage = None\<rparr>)"

section \<open>Value formats\<close>

abbreviation quoted :: "string \<Rightarrow> string" where
  "quoted v \<equiv> apostrophe # v @ [apostrophe]"

text \<open>\<open>originalKey || key\<close>: an absent or empty \<open>originalKey\<close> gives \<open>key\<close>.\<close>

definition orKey :: "string option \<Rightarrow> string \<Rightarrow> string" where
  "orKey originalKey key =
     (case originalKey of None \<Rightarrow> key | Some k \<Rightarrow> if k = [] then key else k)"

text \<open>A property that may be \<open>undefined\<close>, inside a template literal.\<close>

definition interpolate :: "string option \<Rightarrow> string" where
  "interpolate x = (case x of None \<Rightarrow> ''undefined'' | Some y \<Rightarrow> y)"

text \<open>\<open>!value || value.trim().length === 0\<close>.\<close>

definition noValue :: "string \<Rightarrow> bool" where
  "noValue v = (v = [] \<or> length (trim v) = 0)"

text \<open>
  The loop of the \<open>constraint\<close> case over \<open>value.toLowerCase().split(',')\<close>;
  \<open>option\<close> is the first element of \<open>part.split(':')\<close>.
\<close>

definition constraintOptionCheck ::
  "string \<Rightarrow> string \<Rightarrow> string \<Rightarrow> string \<Rightarrow> string \<Rightarrow> GormDiagnostic list" where
  "constraintOptionCheck part sn fn t ek =
     (case split (CHR '':'') part of
        [] \<Rightarrow> []
      | option # _ \<Rightarrow>
          if option \<noteq> [] \<and> trim option \<notin> set [''onupdate'', ''ondelete'']
          then [Diag sn fn t
                  (''Invalid constraint option '' @ quoted option @
                   ''. Valid options: OnUpdate, OnDelete.'')
                  warning (Some ek)]
          else [])"

text \<open>
  \<open>validateTagValue\<close>: the diagnostics that the \<open>switch\<close> on the lower-cased key
  pushes, in the order pushed.
\<close>

definition validateTagValue ::
  "string \<Rightarrow> string \<Rightarrow> string \<Rightarrow> string \<Rightarrow> string \<Rightarrow> string option
     \<Rightarrow> GormDiagnostic list" where
  "validateTagValue key v sn fn t originalKey =
     (let ek = orKey originalKey key in
      if key = ''size'' then
        (if v \<noteq> [] \<and> \<not> isDigits v
         then [Diag sn fn t (''Invalid size value '' @ quoted v @
                 ''. Size must be a positive integer.'') error (Some ek)]
         else [])
      else if key = ''precision'' then
        (if v \<noteq> [] \<and> \<not> isDigits v
         then [Diag sn fn t (''Invalid precision value '' @ quoted v @
                 ''. Precision must be a positive integer.'') error (Some ek)]
         else [])
      else if key = ''scale'' then
        (if v \<noteq> [] \<and> \<not> isDigits v
         then [Diag sn fn t (''Invalid scale value '' @ quoted v @
                 ''. Scale must be a positive integer.'') error (Some ek)]
         else [])
      else if key = ''autoincrementincrement'' then
        (if v \<noteq> [] \<and> \<not> isDigits v
         then [Diag sn fn t (''Invalid autoIncrementIncrement value '' @ quoted v @
                 ''. Must be a positive integer.'') error (Some ek)]
         else [])
      else if key = ''type'' then
        (if noValue v
         then [Diag sn fn t ''Type tag requires a value.'' error (Some ek)]
         else [])
      else if key = ''column'' then
        (if noValue v
         then [Diag sn fn t ''Column tag requires a column name.'' error (Some ek)]
         else [])
      else if key = ''check'' then
        (if noValue v
         then [Diag sn fn t ''Check constraint requires a condition.'' error (Some ek)]
         else [])
      else if key = ''comment'' then
        (if noValue v
         then [Diag sn fn t ''Comment tag requires a comment text.'' warning (Some ek)]
         else
           (let hasUnmatchedQuotes = checkQuoteClosure v in
            (if hasError hasUnmatchedQuotes
             then [Diag sn fn t
                     (''Comment value has unmatched '' @ interpolate (quoteType hasUnmatchedQuotes) @
                      '' quotes. '' @ interpolate (closureMessage hasUnmatchedQuotes))
                     error (Some ek)]
             else []) @
            (if includes_str v [apostrophe] \<and> includes_str v [dquote]
             then [Diag sn fn t
                     (''Comment value contains both single and double quotes. '' @
                      ''Consider using consistent quote style or proper escaping.'')
                     warning (Some ek)]
             else [])))
      else if key = ''default'' then
        (if v \<noteq> [] \<and> includes_str v [apostrophe] \<and> includes_str v [dquote]
         then [Diag sn fn t ''Default value should use consistent quote style.''
                 warning (Some ek)]
         else [])
      else if key = ''serializer'' then
        (if v \<noteq> [] \<and> toLowerCase v \<notin> set [''json'', ''gob'', ''unixtime'']
         then [Diag sn fn t (''Invalid serializer '' @ quoted v @ ''. Valid options: '' @
                 join '', '' [''json'', ''gob'', ''unixtime''] @ ''.'') error (Some ek)]
         else [])
      else if key = ''sort'' then
        (if v \<noteq> [] \<and> toLowerCase v \<notin> set [''asc'', ''desc'']
         then [Diag sn fn t (''Invalid sort value '' @ quoted v @ ''. Valid options: '' @
                 join '', '' [''asc'', ''desc''] @ ''.'') error (Some ek)]
         else [])
      else if key = ''length'' then
        (if v \<noteq> [] \<and> \<not> isDigits v
         then [Diag sn fn t (''Invalid length value '' @ quoted v @
                 ''. Length must be a positive integer.'') error (Some ek)]
         else [])
      else if key = ''priority'' then
        (if v \<noteq> [] \<and> \<not> isDigits v
         then [Diag sn fn t (''Invalid priority value '' @ quoted v @
                 ''. Priority must be a positive integer.'') error (Some ek)]
         else [])
      else if key = ''autocreatetime'' \<or> key = ''autoupdatetime'' then
        (if v \<noteq> [] \<and> toLowerCase v \<notin> set [[], ''nano'', ''milli'']
         then [Diag sn fn t (''Invalid time precision '' @ quoted v @ ''. Valid options: '' @
                 quoted [] @ '', '' @ quoted ''nano'' @ '', '' @ quoted ''milli'' @ ''.'')
                 error (Some ek)]
         else [])
      else if key = ''<-'' then
        (if v \<noteq> [] \<and> toLowerCase v \<notin> set [''create'', ''update'', ''false'']
         then [Diag sn fn t (''Invalid write permission '' @ quoted v @
                 ''. Valid options: '' @ quoted ''create'' @ '', '' @ quoted ''update'' @
                 '', '' @ quoted ''false'' @ ''.'') error (Some ek)]
         else [])
      else if key = ''->'' then
        (if v \<noteq> [] \<and> toLowerCase v \<noteq> ''false''
         then [Diag sn fn t (''Invalid read permission '' @ quoted v @
                 ''. Valid option: '' @ quoted ''false'' @ ''.'') error (Some ek)]
         else [])
      else if key = ''foreignkey'' then
        (if noValue v
         then [Diag sn fn t ''ForeignKey tag requires a field name.'' error (Some ek)]
         else [])
      else if key = ''references'' then
        (if noValue v
         then [Diag sn fn t ''References tag requires a field name.'' error (Some ek)]
         else [])
      else if key = ''many2many'' then
        (if noValue v
         then [Diag sn fn t ''Many2many tag requires a table name.'' error (Some ek)]
         else [])
      else if key = ''joinforeignkey'' \<or> key = ''joinreferences'' then
        (if noValue v
         then [Diag sn fn t (key @ '' tag requires a field name.'') error (Some ek)]
         else [])
      else if key = ''embeddedprefix'' then
        (if noValue v
         then [Diag sn fn t ''EmbeddedPrefix tag requires a prefix value.'' warning (Some ek)]
         else [])
      else if key = ''constraint'' then
        (if noValue v
         then [Diag sn fn t
                 (''Constraint tag requires constraint options '' @
                  ''(e.g., OnUpdate:CASCADE,OnDelete:SET NULL).'') error (Some ek)]
         else concat (map (\<lambda>part. constraintOptionCheck part sn fn t ek)
                        (split (CHR '','') (toLowerCase v))))
      else if key = ''-'' then
        (if v \<noteq> [] \<and> toLowerCase v \<notin> set [[], ''all'', ''migration'']
         then [Diag sn fn t (''Invalid ignore option '' @ quoted v @ ''. Valid options: '' @
                 join '', '' [[], ''all'', ''migration''] @ ''.'') error (Some ek)]
         else [])
      else [])"

section \<open>Key classification\<close>

record KeyValidation =
  valid :: bool
  recommended :: bool

definition generalTags :: "string list" where
  "generalTags = [''column'', ''type'', ''size'', ''primarykey'', ''autoincrement'',
     ''not null'', ''default'', ''unique'', ''embedded'', ''embeddedprefix'', ''-'']"

definition indexConstraintTags :: "string list" where
  "indexConstraintTags = [''index'', ''uniqueindex'', ''priority'', ''check'', ''constraint'']"

definition timeTags :: "string list" where
  "timeTags = [''autocreatetime'', ''autoupdatetime'']"

definition precisionTags :: "string list" where
  "precisionTags = [''precision'', ''scale'', ''autoincrementincrement'']"

definition permissionTags :: "string list" where
  "permissionTags = [''<-'', ''->'', ''comment'']"

definition serializerTags :: "string list" where
  "serializerTags = [''serializer'']"

definition indexOptions :: "string list" where
  "indexOptions = [''sort'', ''length'', ''class'', ''where'', ''option'', ''composite'']"

definition relationTags :: "string list" where
  "relationTags = [''foreignkey'', ''references'', ''many2many'', ''joinforeignkey'',
     ''joinreferences'', ''polymorphic'', ''polymorphicvalue'']"

definition deprecatedAssociationTags :: "string list" where
  "deprecatedAssociationTags = [''association_foreignkey'', ''associationforeignkey'',
     ''associationreferences'', ''joincolumn'', ''associationjoincolumn'']"

definition deprecatedTags :: "string list" where
  "deprecatedTags = [''primary_key'', ''foreign_key'', ''association_foreign_key'',
     ''association_save_reference'', ''auto_create_time'', ''auto_update_time'',
     ''foreignkey_tag'', ''association_foreignkey_tag'']"

definition isValidGormKey :: "string \<Rightarrow> KeyValidation" where
  "isValidGormKey key =
     (let lowerKey = toLowerCase key in
      if lowerKey \<in> set generalTags \<or> lowerKey \<in> set indexConstraintTags \<or>
         lowerKey \<in> set timeTags \<or> lowerKey \<in> set precisionTags \<or>
         lowerKey \<in> set permissionTags \<or> lowerKey \<in> set serializerTags \<or>
         lowerKey \<in> set indexOptions
      then \<lparr>valid = True, recommended = True\<rparr>
      else if lowerKey \<in> set relationTags then \<lparr>valid = True, recommended = False\<rparr>
      else if lowerKey \<in> set deprecatedTags then \<lparr>valid = True, recommended = False\<rparr>
      else if lowerKey \<in> set deprecatedAssociationTags
      then \<lparr>valid = False, recommended = False\<rparr>
      else \<lparr>valid = False, recommended = False\<rparr>)"

section \<open>Combination rules\<close>

text \<open>
  \<open>validateTagCombinations\<close>. \<open>keys\<close> is the \<open>Set\<close> of lower-cased keys seen so far
  in the field, the current one included, as a list in insertion order (the order in
  which \<open>Array.from(keys)\<close> enumerates it).
\<close>

definition validateTagCombinations ::
  "string list \<Rightarrow> string \<Rightarrow> string \<Rightarrow> string \<Rightarrow> string \<Rightarrow> string option
     \<Rightarrow> GormDiagnostic list" where
  "validateTagCombinations keys currentKey sn fn t originalKey =
     (let ek = orKey originalKey currentKey in
      (if currentKey = ''primarykey'' then
         (if ''unique'' \<in> set keys
          then [Diag sn fn t
                  (quoted ''primaryKey'' @ '' automatically implies uniqueness. Remove '' @
                   quoted ''unique'' @ '' tag.'') warning (Some ek)]
          else []) @
         (if ''not null'' \<in> set keys
          then [Diag sn fn t
                  (quoted ''primaryKey'' @ '' automatically implies '' @ quoted ''not null'' @
                   ''. Remove '' @ quoted ''not null'' @ '' tag.'') warning (Some ek)]
          else [])
       else []) @
      (if ''-'' \<in> set keys \<and> length keys > 1
       then [Diag sn fn t
               (''Field marked as ignored ('' @ quoted ''-'' @
                '') cannot have other tags: '' @
                join '', '' (filter (\<lambda>k. k \<noteq> ''-'') keys) @
                ''. Remove conflicting tags.'') error (Some ek)]
       else []) @
      (let foundPermissionTags = filter (\<lambda>tag. tag \<in> set keys) [''<-'', ''->'', ''-''] in
       if length foundPermissionTags > 1
       then [Diag sn fn t
               (''Conflicting permission tags: '' @ join '', '' foundPermissionTags @
                ''. Use only one permission control tag.'') error (Some ek)]
       else []) @
      (if ''autocreatetime'' \<in> set keys \<and> ''autoupdatetime'' \<in> set keys \<and>
          currentKey = ''autoupdatetime''
       then [Diag sn fn t
               ''Field has both creation and update time tracking. Ensure this is intentional.''
               warning (Some ek)]
       else []) @
      (if ''index'' \<in> set keys \<and> ''uniqueindex'' \<in> set keys
       then [Diag sn fn t
               (''Field has both '' @ quoted ''index'' @ '' and '' @ quoted ''uniqueIndex'' @
                ''. Consider using only '' @ quoted ''uniqueIndex'' @ ''.'')
               warning (Some ek)]
       else []) @
      (if ''foreignkey'' \<in> set keys \<and> ''references'' \<notin> set keys
       then [Diag sn fn t
               (quoted ''foreignKey'' @ '' should be used together with '' @
                quoted ''references'' @ '' for proper relationship definition.'')
               warning (Some ek)]
       else []) @
      (if ''many2many'' \<in> set keys \<and> (''foreignkey'' \<in> set keys \<or> ''references'' \<in> set keys)
       then [Diag sn fn t
               (quoted ''many2many'' @ '' cannot be used with '' @ quoted ''foreignKey'' @
                '' or '' @ quoted ''references'' @ ''. Use association struct instead.'')
               error (Some ek)]
       else []) @
      (if ''embedded'' \<in> set keys \<and> ''column'' \<in> set keys
       then [Diag sn fn t
               (quoted ''embedded'' @ '' fields expand into multiple columns, '' @
                quoted ''column'' @ '' tag is not applicable.'') error (Some ek)]
       else []))"

text \<open>\<open>validateFieldLevelRules\<close> inspects the keys and pushes nothing.\<close>

definition validateFieldLevelRules ::
  "string list \<Rightarrow> string \<Rightarrow> string \<Rightarrow> string \<Rightarrow> GormDiagnostic list" where
  "validateFieldLevelRules keys sn fn t = []"

section \<open>The validation pass\<close>

text \<open>
  The mutable state of \<open>validateGormTags\<close> while it works on one struct. The two
  \<open>Map\<close>s: \<open>columnValues\<close> is only looked up and extended, \<open>indexNames\<close> is also
  enumerated, so it is kept as an association list in insertion order.
\<close>

record ValidationState =
  columnValues :: "string \<rightharpoonup> string"
  primaryKeyFields :: "string list"
  indexNames :: "(string \<times> string list) list"
  hasGormTags :: bool
  diagnostics :: "GormDiagnostic list"

text \<open>\<open>keys.add(k)\<close> on the insertion-ordered \<open>Set\<close>.\<close>

definition setAdd :: "string list \<Rightarrow> string \<Rightarrow> string list" where
  "setAdd keys k = (if k \<in> set keys then keys else keys @ [k])"

text \<open>The part of a tag entry before the first colon, and the part after it.\<close>

definition partKey :: "string \<Rightarrow> string" where
  "partKey part =
     (let colonIndex = indexOf part '':'' in
      if colonIndex > 0 then trim (substring part 0 colonIndex) else trim part)"

definition partValue :: "string \<Rightarrow> string" where
  "partValue part =
     (let colonIndex = indexOf part '':'' in
      if colonIndex > 0 then trim (substringFrom part (colonIndex + 1)) else [])"

text \<open>
  \<open>indexNames.get(value)!.push(field.name)\<close>, after the entry for \<open>value\<close> has been
  created if it was missing.
\<close>

definition recordIndexName ::
  "(string \<times> string list) list \<Rightarrow> string \<Rightarrow> string \<Rightarrow> (string \<times> string list) list" where
  "recordIndexName idx v fname =
     map (\<lambda>(k, fs). if k = v then (k, fs @ [fname]) else (k, fs))
       (if v \<in> set (map fst idx) then idx else idx @ [(v, [])])"

text \<open>
  The body of the loop over \<open>tagParts\<close> pushes diagnostics in six steps. The first
  four are written in line in \<open>validateGormTags\<close>; each is given here as the list it
  pushes. \<open>keys\<close> is the field's key set before the entry, \<open>keys'\<close> after
  \<open>keys.add(lowerKey)\<close>.
\<close>

definition duplicateKeyCheck ::
  "string list \<Rightarrow> string \<Rightarrow> string \<Rightarrow> string \<Rightarrow> string \<Rightarrow> string \<Rightarrow> GormDiagnostic list" where
  "duplicateKeyCheck keys lowerKey key sn fn t =
     (if lowerKey \<in> set keys
      then [Diag sn fn t (''Duplicate GORM tag key '' @ quoted key @ '' in field'')
              error (Some key)]
      else [])"

definition primaryKeyUniqueCheck ::
  "string list \<Rightarrow> string \<Rightarrow> string \<Rightarrow> string \<Rightarrow> string \<Rightarrow> string \<Rightarrow> GormDiagnostic list" where
  "primaryKeyUniqueCheck keys' lowerKey key sn fn t =
     (if lowerKey = ''primarykey'' \<and> ''unique'' \<in> set keys'
      then [Diag sn fn t
              (quoted ''primaryKey'' @ '' and '' @ quoted ''unique'' @
               '' cannot be used together'') error (Some key)]
      else []) @
     (if lowerKey = ''unique'' \<and> ''primarykey'' \<in> set keys'
      then [Diag sn fn t
              (quoted ''unique'' @ '' and '' @ quoted ''primaryKey'' @
               '' cannot be used together'') error (Some key)]
      else [])"

definition duplicateColumnMessage :: "string \<Rightarrow> string \<Rightarrow> string" where
  "duplicateColumnMessage v existingFieldName =
     ''Duplicate column name '' @ quoted v @ '' already used by field '' @
     quoted existingFieldName @ ''. Each column name must be unique within the struct.''"

definition duplicateColumnCheck ::
  "(string \<rightharpoonup> string) \<Rightarrow> string \<Rightarrow> string \<Rightarrow> string \<Rightarrow> string \<Rightarrow> string \<Rightarrow> string
     \<Rightarrow> GormDiagnostic list" where
  "duplicateColumnCheck cv lowerKey key v sn fn t =
     (if lowerKey = ''column'' \<and> v \<noteq> [] then
        (case cv v of
           Some existingFieldName \<Rightarrow>
             [Diag sn fn t (duplicateColumnMessage v existingFieldName) error (Some key)]
         | None \<Rightarrow> [])
      else [])"

definition keyValidityCheck ::
  "string \<Rightarrow> string \<Rightarrow> string \<Rightarrow> string \<Rightarrow> string \<Rightarrow> GormDiagnostic list" where
  "keyValidityCheck lowerKey key sn fn t =
     (let keyValidation = isValidGormKey lowerKey in
      if \<not> valid keyValidation
      then [Diag sn fn t
              (''Unknown GORM tag '' @ quoted key @
               ''. Check GORM documentation for valid tags.'') error (Some key)]
      else if \<not> recommended keyValidation
      then [Diag sn fn t
              (''GORM tag '' @ quoted key @ '' is deprecated or not recommended. '' @
               ''Consider using alternative approaches.'') warning (Some key)]
      else [])"

text \<open>Everything one entry pushes, in the order of the loop body.\<close>

definition entryDiagnostics ::
  "GoStruct \<Rightarrow> GormTag \<Rightarrow> string list \<Rightarrow> (string \<rightharpoonup> string) \<Rightarrow> string
     \<Rightarrow> GormDiagnostic list" where
  "entryDiagnostics struct field keys cv part =
     (let sn = GoStruct.name struct; fn = GormTag.name field; t = gormTag field;
          key = partKey part;
          v = partValue part;
          lowerKey = toLowerCase key;
          keys' = setAdd keys lowerKey
      in duplicateKeyCheck keys lowerKey key sn fn t @
         primaryKeyUniqueCheck keys' lowerKey key sn fn t @
         duplicateColumnCheck cv lowerKey key v sn fn t @
         keyValidityCheck lowerKey key sn fn t @
         validateTagValue lowerKey v sn fn t (Some key) @
         validateTagCombinations keys' lowerKey sn fn t (Some key))"

text \<open>\<open>columnValues\<close> after the entry: a new column name is recorded with its field.\<close>

definition recordColumn ::
  "string \<Rightarrow> (string \<rightharpoonup> string) \<Rightarrow> string \<Rightarrow> (string \<rightharpoonup> string)" where
  "recordColumn fn cv part =
     (if toLowerCase (partKey part) = ''column'' \<and> partValue part \<noteq> [] \<and>
         cv (partValue part) = None
      then cv(partValue part \<mapsto> fn) else cv)"

text \<open>
  The body of the loop over \<open>tagParts\<close>: one entry of one field. The first component
  of the state is the field's \<open>keys\<close> set.
\<close>

definition processPart ::
  "GoStruct \<Rightarrow> GormTag \<Rightarrow> string list \<times> ValidationState \<Rightarrow> string
     \<Rightarrow> string list \<times> ValidationState" where
  "processPart struct field ks part =
     (let keys = fst ks; st = snd ks;
          fn = GormTag.name field;
          v = partValue part;
          lowerKey = toLowerCase (partKey part)
      in (setAdd keys lowerKey,
          st\<lparr>columnValues := recordColumn fn (columnValues st) part,
             primaryKeyFields :=
               (if lowerKey = ''primarykey''
                then primaryKeyFields st @ [fn] else primaryKeyFields st),
             indexNames :=
               (if (lowerKey = ''index'' \<or> lowerKey = ''uniqueindex'') \<and> v \<noteq> []
                then recordIndexName (indexNames st) v fn else indexNames st),
             diagnostics := diagnostics st @
               entryDiagnostics struct field keys (columnValues st) part\<rparr>))"

text \<open>
  \<open>field.gormTag.split(';').map(part => part.trim()).filter(part => part.length > 0)\<close>
\<close>

definition tagParts :: "string \<Rightarrow> string list" where
  "tagParts t = filter (\<lambda>part. length part > 0) (map trim (split (CHR '';'') t))"

text \<open>
  The body of the loop over \<open>struct.fields\<close>. Nothing inside the \<open>try\<close> block can
  throw (string splitting, trimming, searching and lower-casing, and the pushes, are
  total), so the \<open>catch\<close> branch has no counterpart here.
\<close>

definition processField :: "GoStruct \<Rightarrow> ValidationState \<Rightarrow> GormTag \<Rightarrow> ValidationState" where
  "processField struct st field =
     (if gormTag field = [] \<or> length (trim (gormTag field)) = 0 then st
      else
        (let ks = foldl (processPart struct field) ([], st\<lparr>hasGormTags := True\<rparr>)
                    (tagParts (gormTag field));
             st' = snd ks
         in st'\<lparr>diagnostics := diagnostics st' @
                  validateFieldLevelRules (fst ks) (GoStruct.name struct)
                    (GormTag.name field) (gormTag field)\<rparr>))"

text \<open>The struct-wide pass: multiple primary keys.\<close>

definition multiplePrimaryKeys :: "GoStruct \<Rightarrow> string list \<Rightarrow> GormDiagnostic list" where
  "multiplePrimaryKeys struct pkFields =
     (if length pkFields > 1 then
        concat (map (\<lambda>fieldName.
          case find (\<lambda>f. GormTag.name f = fieldName) (fields' struct) of
            Some field \<Rightarrow>
              [Diag (GoStruct.name struct) (GormTag.name field) (gormTag field)
                 ''Multiple primary keys found in struct. Only one primary key is allowed.''
                 error None]
          | None \<Rightarrow> []) pkFields)
      else [])"

text \<open>The struct-wide pass: index names used by more than one field.\<close>

definition sharedIndexNames ::
  "GoStruct \<Rightarrow> (string \<times> string list) list \<Rightarrow> GormDiagnostic list" where
  "sharedIndexNames struct idx =
     concat (map (\<lambda>(indexName, fieldsUsingIndex).
       if length fieldsUsingIndex > 1 then
         concat (map (\<lambda>fieldName.
           case find (\<lambda>f. GormTag.name f = fieldName) (fields' struct) of
             Some field \<Rightarrow>
               [Diag (GoStruct.name struct) (GormTag.name field) (gormTag field)
                  (''Index '' @ quoted indexName @ '' is used by multiple fields: '' @
                   join '', '' fieldsUsingIndex @
                   ''. Ensure this is intended for composite index.'')
                  warning None]
           | None \<Rightarrow> []) fieldsUsingIndex)
       else []) idx)"

definition initialState :: ValidationState where
  "initialState =
     \<lparr>columnValues = Map.empty, primaryKeyFields = [], indexNames = [],
      hasGormTags = False, diagnostics = []\<rparr>"

text \<open>The body of the loop over \<open>structs\<close>: what one struct adds to \<open>diagnostics\<close>.\<close>

definition validateStruct :: "GoStruct \<Rightarrow> GormDiagnostic list" where
  "validateStruct struct =
     (if fields' struct = [] then []
      else
        (let st = foldl (processField struct) initialState (fields' struct) in
         if \<not> hasGormTags st then diagnostics st
         else diagnostics st @
              multiplePrimaryKeys struct (primaryKeyFields st) @
              sharedIndexNames struct (indexNames st)))"

definition validateGormTags :: "GoStruct list \<Rightarrow> GormDiagnostic list" where
  "validateGormTags structs = foldl (\<lambda>diags struct. diags @ validateStruct struct) [] structs"

section \<open>Locating a diagnostic in the text\<close>

record Position =
  line :: int
  character :: int

record Range =
  start :: Position
  end' :: Position

text \<open>
  The only operation of \<open>findFieldRange\<close> that can throw is a method call on
  \<open>lines[structStartLine]\<close>, should that be \<open>undefined\<close>.
\<close>

datatype error = TypeError

text \<open>
  The attempt to locate \<open>errorTag\<close> behind \<open>gorm:\<close> on the field's line;
  \<open>None\<close> when the code falls through to the field name.
\<close>

definition errorTagRange :: "string \<Rightarrow> nat \<Rightarrow> string option \<Rightarrow> Range option" where
  "errorTagRange ln i errTag =
     (case errTag of
        None \<Rightarrow> None
      | Some e \<Rightarrow>
          if e \<noteq> [] \<and> includes_str ln ''gorm:'' then
            (let gormTagStart = indexOf ln ''gorm:'';
                 gormTagContent = substringFrom ln gormTagStart;
                 errorTagIndex = indexOf gormTagContent e
             in if errorTagIndex \<noteq> - 1 then
                  (let absoluteStart = gormTagStart + errorTagIndex
                   in Some \<lparr>start = \<lparr>line = int i, character = absoluteStart\<rparr>,
                            end' = \<lparr>line = int i,
                                    character = absoluteStart + int (length e)\<rparr>\<rparr>)
                else None)
          else None)"

text \<open>
  The \<open>for\<close> loop over the lines, from line \<open>i\<close> on. \<open>Inl r\<close> is a \<open>return r\<close>
  inside the loop; \<open>Inr (structFound, structStartLine)\<close> is the state in which the loop
  ends, by running out of lines or by \<open>break\<close>.
\<close>

fun findFieldLoop ::
  "string \<Rightarrow> string \<Rightarrow> string option \<Rightarrow> string list \<Rightarrow> nat \<Rightarrow> bool \<Rightarrow> bool \<Rightarrow> int
     \<Rightarrow> Range + bool \<times> int" where
  "findFieldLoop sName fName errTag [] i inStruct structFound structStartLine =
     Inr (structFound, structStartLine)"
| "findFieldLoop sName fName errTag (ln # rest) i inStruct structFound
     structStartLine =
     (if includes_str ln (''type '' @ sName @ '' struct'') then
        findFieldLoop sName fName errTag rest (i + 1) True True (int i)
      else if inStruct \<and> structFound then
        (if trim ln = ''}'' then Inr (structFound, structStartLine)
         else if startsWith (trim ln) fName then
           (case errorTagRange ln i errTag of
              Some r \<Rightarrow> Inl r
            | None \<Rightarrow>
                (let lineStart = indexOf ln fName
                 in Inl \<lparr>start = \<lparr>line = int i, character = lineStart\<rparr>,
                         end' = \<lparr>line = int i,
                                 character = lineStart + int (length fName)\<rparr>\<rparr>))
         else findFieldLoop sName fName errTag rest (i + 1) inStruct structFound
                structStartLine)
      else findFieldLoop sName fName errTag rest (i + 1) inStruct structFound
             structStartLine)"

definition findFieldRange ::
  "string \<Rightarrow> string \<Rightarrow> string \<Rightarrow> string option \<Rightarrow> error + Range" where
  "findFieldRange source sName fName errTag =
     (let lines = split (CHR 0x0A) source in
      case findFieldLoop sName fName errTag lines 0 False False (- 1) of
        Inl r \<Rightarrow> Inr r
      | Inr (structFound, structStartLine) \<Rightarrow>
          if structFound \<and> structStartLine \<ge> 0 then
            (if nat structStartLine < length lines then
               (let structLine = lines ! nat structStartLine;
                    structNameStart = indexOf structLine sName
                in Inr \<lparr>start = \<lparr>line = structStartLine, character = structNameStart\<rparr>,
                        end' = \<lparr>line = structStartLine,
                                character = structNameStart + int (length sName)\<rparr>\<rparr>)
             else Inl TypeError)
          else Inr \<lparr>start = \<lparr>line = 0, character = 0\<rparr>,
                    end' = \<lparr>line = 0, character = 1\<rparr>\<rparr>)"

section \<open>The cap on the number of reported problems\<close>

text \<open>
  The interface \<open>GormLanguageServerSettings\<close> of \<open>server.ts\<close>. Its one property is a
  \<open>number\<close>; the cap is an integer here.
\<close>

record GormLanguageServerSettings =
  maxNumberOfProblems :: int

definition defaultSettings :: GormLanguageServerSettings where
  "defaultSettings = \<lparr>maxNumberOfProblems = 1000\<rparr>"

text \<open>\<open>settings.maxNumberOfProblems || 1000\<close>: zero is falsy.\<close>

definition maxProblems :: "GormLanguageServerSettings \<Rightarrow> int" where
  "maxProblems settings =
     (if maxNumberOfProblems settings = 0 then 1000 else maxNumberOfProblems settings)"

text \<open>\<open>xs.slice(0, end)\<close>: a negative \<open>end\<close> counts from the end of the array.\<close>

definition slice0 :: "'a list \<Rightarrow> int \<Rightarrow> 'a list" where
  "slice0 xs e = (if e < 0 then take (nat (int (length xs) + e)) xs else take (nat e) xs)"

definition limitedDiagnostics ::
  "GormLanguageServerSettings \<Rightarrow> GormDiagnostic list \<Rightarrow> GormDiagnostic list" where
  "limitedDiagnostics settings gormDiagnostics =
     slice0 gormDiagnostics (maxProblems settings)"

section \<open>Views of the validation pass\<close>

text \<open>
  The definitions of this section are not part of the validator. They name what the
  statements below talk about (the lower-cased keys of a literal, the messages, the
  diagnostics of one kind) and give the loops of \<open>validateGormTags\<close> as recursions
  over the entries of a field and the fields of a struct, which is how the proofs follow
  them.
\<close>

definition lowerKeyOf :: "string \<Rightarrow> string" where
  "lowerKeyOf part = toLowerCase (partKey part)"

definition lowerKeys :: "string \<Rightarrow> string list" where
  "lowerKeys t = map lowerKeyOf (tagParts t)"

fun partsDiagnostics ::
  "GoStruct \<Rightarrow> GormTag \<Rightarrow> string list \<Rightarrow> (string \<rightharpoonup> string) \<Rightarrow> string list
     \<Rightarrow> GormDiagnostic list" where
  "partsDiagnostics s f keys cv [] = []"
| "partsDiagnostics s f keys cv (p # ps) =
     entryDiagnostics s f keys cv p @
     partsDiagnostics s f (setAdd keys (lowerKeyOf p)) (recordColumn (GormTag.name f) cv p) ps"

definition fieldColumns :: "(string \<rightharpoonup> string) \<Rightarrow> GormTag \<Rightarrow> (string \<rightharpoonup> string)" where
  "fieldColumns cv f = foldl (recordColumn (GormTag.name f)) cv (tagParts (gormTag f))"

fun fieldsDiagnostics ::
  "GoStruct \<Rightarrow> (string \<rightharpoonup> string) \<Rightarrow> GormTag list \<Rightarrow> GormDiagnostic list" where
  "fieldsDiagnostics s cv [] = []"
| "fieldsDiagnostics s cv (f # fs) =
     partsDiagnostics s f [] cv (tagParts (gormTag f)) @
     fieldsDiagnostics s (fieldColumns cv f) fs"

definition primaryKeyEntries :: "GormTag \<Rightarrow> string list" where
  "primaryKeyEntries f =
     map (\<lambda>p. GormTag.name f) (filter (\<lambda>p. lowerKeyOf p = ''primarykey'') (tagParts (gormTag f)))"

definition msgHead :: "GormDiagnostic \<Rightarrow> string" where
  "msgHead d = take 2 (message d)"

definition multiplePrimaryKeysMessage :: string where
  "multiplePrimaryKeysMessage =
     ''Multiple primary keys found in struct. Only one primary key is allowed.''"

definition entryHeads :: "string list" where
  "entryHeads = [''Du'', [apostrophe, CHR ''p''], [apostrophe, CHR ''u''], ''Un'', ''GO'',
     ''In'', ''Ty'', ''Co'', ''Ch'', ''De'', ''Fo'', ''Re'', ''Ma'', ''jo'', ''Em'',
     ''Fi'', [apostrophe, CHR ''f''], [apostrophe, CHR ''m''], [apostrophe, CHR ''e'']]"

definition headIn :: "string list \<Rightarrow> GormDiagnostic \<Rightarrow> bool" where
  "headIn H d = (msgHead d \<in> set H)"

definition duplicateKeyMessage :: "string \<Rightarrow> string" where
  "duplicateKeyMessage key = ''Duplicate GORM tag key '' @ quoted key @ '' in field''"

definition primaryKeyUniqueMessages :: "string list" where
  "primaryKeyUniqueMessages =
     [quoted ''primaryKey'' @ '' and '' @ quoted ''unique'' @ '' cannot be used together'',
      quoted ''unique'' @ '' and '' @ quoted ''primaryKey'' @ '' cannot be used together'']"

definition errorsOf :: "GormDiagnostic list \<Rightarrow> GormDiagnostic list" where
  "errorsOf ds = filter (\<lambda>d. level d = error) ds"

definition multiplicityErrors :: "GormDiagnostic list \<Rightarrow> GormDiagnostic list" where
  "multiplicityErrors ds = filter (\<lambda>d. message d = multiplePrimaryKeysMessage) ds"

definition isDuplicateKeyError :: "GoStruct \<Rightarrow> GormTag \<Rightarrow> string \<Rightarrow> GormDiagnostic \<Rightarrow> bool" where
  "isDuplicateKeyError s f k d \<longleftrightarrow>
     level d = error \<and> structName d = GoStruct.name s \<and> fieldName d = GormTag.name f \<and>
     tag d = gormTag f \<and>
     (\<exists>key. toLowerCase key = k \<and> message d = duplicateKeyMessage key \<and> errorTag d = Some key)"

definition isPrimaryKeyUniqueError :: "GoStruct \<Rightarrow> GormTag \<Rightarrow> GormDiagnostic \<Rightarrow> bool" where
  "isPrimaryKeyUniqueError s f d \<longleftrightarrow>
     level d = error \<and> structName d = GoStruct.name s \<and> fieldName d = GormTag.name f \<and>
     tag d = gormTag f \<and> message d \<in> set primaryKeyUniqueMessages"

definition declaredTag :: "GoStruct \<Rightarrow> string \<Rightarrow> string" where
  "declaredTag s n =
     (case find (\<lambda>g. GormTag.name g = n) (fields' s) of
        Some g \<Rightarrow> gormTag g
      | None \<Rightarrow> [])"

definition pairingMessage :: string where
  "pairingMessage =
     quoted ''foreignKey'' @ '' should be used together with '' @ quoted ''references'' @
     '' for proper relationship definition.''"

definition timeTrackingMessage :: string where
  "timeTrackingMessage =
     ''Field has both creation and update time tracking. Ensure this is intentional.''"

definition coOccurrenceFindings :: "GormDiagnostic list \<Rightarrow> GormDiagnostic list" where
  "coOccurrenceFindings ds = filter (\<lambda>d. message d = timeTrackingMessage) ds"

fun unescapedQuoteChars :: "char option \<Rightarrow> string \<Rightarrow> string" where
  "unescapedQuoteChars prev [] = []"
| "unescapedQuoteChars prev (c # cs) =
     (if (c = apostrophe \<or> c = dquote) \<and> prev \<noteq> Some backslash then [c] else []) @
     unescapedQuoteChars (Some c) cs"

fun countedQuotes :: "char option \<Rightarrow> string \<Rightarrow> string" where
  "countedQuotes opened [] = []"
| "countedQuotes None (q # qs) = q # countedQuotes (Some q) qs"
| "countedQuotes (Some k) (q # qs) =
     (if q = k then q # countedQuotes None qs else countedQuotes (Some k) qs)"

definition openSpan :: "QuoteScan \<Rightarrow> char option" where
  "openSpan st =
     (if inSingleQuote st then Some apostrophe
      else if inDoubleQuote st then Some dquote
      else None)"

definition unmatchedQuotesMessage :: "string \<Rightarrow> nat \<Rightarrow> string" where
  "unmatchedQuotesMessage kind n =
     ''Comment value has unmatched '' @ kind @ '' quotes. Found '' @ showNat n @ '' '' @ kind @
     '' quotes, expected even number for proper closure.''"

definition mixedQuotesMessage :: string where
  "mixedQuotesMessage =
     ''Comment value contains both single and double quotes. '' @
     ''Consider using consistent quote style or proper escaping.''"

definition isColumnEntry :: "string \<Rightarrow> bool" where
  "isColumnEntry part \<longleftrightarrow> lowerKeyOf part = ''column'' \<and> partValue part \<noteq> []"

definition columnEntries :: "string \<Rightarrow> string list" where
  "columnEntries t = map partValue (filter isColumnEntry (tagParts t))"

definition structColumnEntries :: "GoStruct \<Rightarrow> string list" where
  "structColumnEntries s = concat (map (\<lambda>f. columnEntries (gormTag f)) (fields' s))"

definition isDuplicateColumnError :: "GormDiagnostic \<Rightarrow> bool" where
  "isDuplicateColumnError d \<longleftrightarrow> prefix ''Duplicate column name '' (message d)"

definition duplicateColumnErrors :: "GormDiagnostic list \<Rightarrow> GormDiagnostic list" where
  "duplicateColumnErrors ds = filter isDuplicateColumnError ds"

definition structColumnUses :: "GoStruct \<Rightarrow> (GormTag \<times> string) list" where
  "structColumnUses s =
     concat (map (\<lambda>f. map (Pair f) (filter isColumnEntry (tagParts (gormTag f)))) (fields' s))"

definition firstOwner :: "(GormTag \<times> string) list \<Rightarrow> string \<Rightarrow> string option" where
  "firstOwner seen w =
     map_option (\<lambda>u. GormTag.name (fst u)) (find (\<lambda>u. partValue (snd u) = w) seen)"

fun columnFindingsFrom ::
  "GoStruct \<Rightarrow> (GormTag \<times> string) list \<Rightarrow> (GormTag \<times> string) list
     \<Rightarrow> (string \<times> GormDiagnostic) list" where
  "columnFindingsFrom s seen [] = []"
| "columnFindingsFrom s seen (u # us) =
     (case firstOwner seen (partValue (snd u)) of
        Some own \<Rightarrow>
          [(partValue (snd u),
            Diag (GoStruct.name s) (GormTag.name (fst u)) (gormTag (fst u))
              (duplicateColumnMessage (partValue (snd u)) own) error (Some (partKey (snd u))))]
      | None \<Rightarrow> []) @
     columnFindingsFrom s (seen @ [u]) us"

definition columnFindings :: "GoStruct \<Rightarrow> (string \<times> GormDiagnostic) list" where
  "columnFindings s = columnFindingsFrom s [] (structColumnUses s)"

section \<open>The loops as recursions\<close>

lemma all_dropWhile: "(\<forall>c \<in> set (dropWhile P s). P c) \<longleftrightarrow> (\<forall>c \<in> set s. P c)"
  by (induction s) auto

lemma trim_empty_iff: "trim s = [] \<longleftrightarrow> (\<forall>c \<in> set s. isWhitespace c)"
  by (simp add: trim_def all_dropWhile)

lemma split_no_separator: "sep \<notin> set s \<Longrightarrow> split sep s = [s]"
  by (induction s) auto

lemma semicolon_not_whitespace: "\<not> isWhitespace (CHR '';'')"
  by (simp add: isWhitespace_def)

lemma tagParts_blank:
  assumes "t = [] \<or> length (trim t) = 0"
  shows "tagParts t = []"
proof -
  have e: "trim t = []"
  proof (cases "t = []")
    case True
    then show ?thesis by (simp add: trim_def)
  next
    case False
    with assms show ?thesis by simp
  qed
  then have w: "\<forall>c \<in> set t. isWhitespace c" by (simp only: trim_empty_iff)
  have "CHR '';'' \<notin> set t"
  proof
    assume "CHR '';'' \<in> set t"
    with w have "isWhitespace (CHR '';'')" by blast
    with semicolon_not_whitespace show False by blast
  qed
  then have "split (CHR '';'') t = [t]" by (rule split_no_separator)
  with e show ?thesis by (simp add: tagParts_def)
qed

lemma foldl_append_concat: "foldl (\<lambda>acc x. acc @ g x) acc xs = acc @ concat (map g xs)"
  by (induction xs arbitrary: acc) simp_all

lemma validateGormTags_concat: "validateGormTags structs = concat (map validateStruct structs)"
  by (simp add: validateGormTags_def foldl_append_concat)

lemma validateGormTags_single: "validateGormTags [s] = validateStruct s"
  by (simp add: validateGormTags_concat)

lemma processPart_fst: "fst (processPart s f ks p) = setAdd (fst ks) (lowerKeyOf p)"
  by (simp add: processPart_def Let_def lowerKeyOf_def)

lemma processPart_diagnostics:
  "diagnostics (snd (processPart s f ks p)) =
     diagnostics (snd ks) @ entryDiagnostics s f (fst ks) (columnValues (snd ks)) p"
  by (simp add: processPart_def Let_def)

lemma processPart_columnValues:
  "columnValues (snd (processPart s f ks p)) =
     recordColumn (GormTag.name f) (columnValues (snd ks)) p"
  by (simp add: processPart_def Let_def)

lemma processPart_primaryKeyFields:
  "primaryKeyFields (snd (processPart s f ks p)) =
     primaryKeyFields (snd ks) @ (if lowerKeyOf p = ''primarykey'' then [GormTag.name f] else [])"
  by (simp add: processPart_def Let_def lowerKeyOf_def)

lemma processPart_hasGormTags:
  "hasGormTags (snd (processPart s f ks p)) = hasGormTags (snd ks)"
  by (simp add: processPart_def Let_def)

lemma parts_diagnostics:
  "diagnostics (snd (foldl (processPart s f) ks ps)) =
     diagnostics (snd ks) @ partsDiagnostics s f (fst ks) (columnValues (snd ks)) ps"
  by (induction ps arbitrary: ks)
     (simp_all add: processPart_fst processPart_diagnostics processPart_columnValues)

lemma parts_columnValues:
  "columnValues (snd (foldl (processPart s f) ks ps)) =
     foldl (recordColumn (GormTag.name f)) (columnValues (snd ks)) ps"
  by (induction ps arbitrary: ks) (simp_all add: processPart_columnValues)

lemma parts_primaryKeyFields:
  "primaryKeyFields (snd (foldl (processPart s f) ks ps)) =
     primaryKeyFields (snd ks) @
     map (\<lambda>p. GormTag.name f) (filter (\<lambda>p. lowerKeyOf p = ''primarykey'') ps)"
  by (induction ps arbitrary: ks) (simp_all add: processPart_primaryKeyFields)

lemma parts_hasGormTags:
  "hasGormTags (snd (foldl (processPart s f) ks ps)) = hasGormTags (snd ks)"
  by (induction ps arbitrary: ks) (simp_all add: processPart_hasGormTags)

lemma processField_diagnostics:
  "diagnostics (processField s st f) =
     diagnostics st @ partsDiagnostics s f [] (columnValues st) (tagParts (gormTag f))"
  by (simp add: processField_def Let_def parts_diagnostics validateFieldLevelRules_def
        tagParts_blank)

lemma processField_columnValues:
  "columnValues (processField s st f) = fieldColumns (columnValues st) f"
  by (simp add: processField_def Let_def parts_columnValues fieldColumns_def tagParts_blank)

lemma processField_primaryKeyFields:
  "primaryKeyFields (processField s st f) = primaryKeyFields st @ primaryKeyEntries f"
  by (simp add: processField_def Let_def parts_primaryKeyFields primaryKeyEntries_def
        tagParts_blank)

lemma processField_hasGormTags:
  "\<not> hasGormTags (processField s st f) \<Longrightarrow> primaryKeyEntries f = []"
  by (auto simp: processField_def Let_def parts_hasGormTags primaryKeyEntries_def
        tagParts_blank split: if_splits)

lemma processField_hasGormTags_mono:
  "hasGormTags st \<Longrightarrow> hasGormTags (processField s st f)"
  by (simp add: processField_def Let_def parts_hasGormTags)

lemma fields_diagnostics:
  "diagnostics (foldl (processField s) st fs) =
     diagnostics st @ fieldsDiagnostics s (columnValues st) fs"
  by (induction fs arbitrary: st)
     (simp_all add: processField_diagnostics processField_columnValues)

lemma fields_primaryKeyFields:
  "primaryKeyFields (foldl (processField s) st fs) =
     primaryKeyFields st @ concat (map primaryKeyEntries fs)"
  by (induction fs arbitrary: st) (simp_all add: processField_primaryKeyFields)

lemma fields_hasGormTags_mono:
  "hasGormTags st \<Longrightarrow> hasGormTags (foldl (processField s) st fs)"
  by (induction fs arbitrary: st) (simp_all add: processField_hasGormTags_mono)

lemma fields_hasGormTags:
  "\<not> hasGormTags (foldl (processField s) st fs) \<Longrightarrow> concat (map primaryKeyEntries fs) = []"
proof (induction fs arbitrary: st)
  case Nil
  then show ?case by simp
next
  case (Cons f fs)
  from Cons.prems have a: "\<not> hasGormTags (foldl (processField s) (processField s st f) fs)"
    by simp
  then have "\<not> hasGormTags (processField s st f)"
    using fields_hasGormTags_mono by blast
  then have "primaryKeyEntries f = []" by (rule processField_hasGormTags)
  with Cons.IH [OF a] show ?case by simp
qed

lemma validateStruct_eq:
  "\<exists>idx. validateStruct s =
     fieldsDiagnostics s Map.empty (fields' s) @
     multiplePrimaryKeys s (concat (map primaryKeyEntries (fields' s))) @
     sharedIndexNames s idx"
proof (cases "hasGormTags (foldl (processField s) initialState (fields' s))")
  case True
  then have "validateStruct s =
     fieldsDiagnostics s Map.empty (fields' s) @
     multiplePrimaryKeys s (concat (map primaryKeyEntries (fields' s))) @
     sharedIndexNames s (indexNames (foldl (processField s) initialState (fields' s)))"
    by (auto simp: validateStruct_def Let_def fields_diagnostics fields_primaryKeyFields
          initialState_def multiplePrimaryKeys_def)
  then show ?thesis ..
next
  case False
  from fields_hasGormTags [OF False]
  have "validateStruct s =
     fieldsDiagnostics s Map.empty (fields' s) @
     multiplePrimaryKeys s (concat (map primaryKeyEntries (fields' s))) @
     sharedIndexNames s []"
    using False
    by (auto simp: validateStruct_def Let_def fields_diagnostics initialState_def
          multiplePrimaryKeys_def sharedIndexNames_def)
  then show ?thesis ..
qed

lemma list_all_if:
  "(c \<Longrightarrow> list_all P a) \<Longrightarrow> (\<not> c \<Longrightarrow> list_all P b) \<Longrightarrow> list_all P (if c then a else b)"
  by simp

lemma list_all_concat_map: "(\<And>x. list_all P (g x)) \<Longrightarrow> list_all P (concat (map g xs))"
  by (induction xs) simp_all

lemma headIn_mono:
  "list_all (headIn H1) xs \<Longrightarrow> set H1 \<subseteq> set H2 \<Longrightarrow> list_all (headIn H2) xs"
  by (induction xs) (auto simp: headIn_def)

lemma headIn_single: "take 2 m \<in> set H \<Longrightarrow> list_all (headIn H) [Diag sn fn t m l e]"
  by (simp add: headIn_def msgHead_def)

lemma headIn_Nil: "list_all (headIn H) []"
  by simp

lemma list_all_appendI: "list_all P a \<Longrightarrow> list_all P b \<Longrightarrow> list_all P (a @ b)"
  by simp

lemma duplicateKeyCheck_head:
  "list_all (headIn [''Du'']) (duplicateKeyCheck keys lk key sn fn t)"
  unfolding duplicateKeyCheck_def
  by (intro list_all_if headIn_single headIn_Nil) simp

lemma primaryKeyUniqueCheck_head:
  "list_all (headIn [[apostrophe, CHR ''p''], [apostrophe, CHR ''u'']])
     (primaryKeyUniqueCheck keys lk key sn fn t)"
  unfolding primaryKeyUniqueCheck_def
  by (intro list_all_appendI list_all_if headIn_single headIn_Nil) simp_all

lemma duplicateColumnCheck_head:
  "list_all (headIn [''Du'']) (duplicateColumnCheck cv lk key v sn fn t)"
  by (simp add: duplicateColumnCheck_def duplicateColumnMessage_def headIn_def msgHead_def
        split: option.splits)

lemma keyValidityCheck_head:
  "list_all (headIn [''Un'', ''GO'']) (keyValidityCheck lk key sn fn t)"
  unfolding keyValidityCheck_def Let_def
  by (intro list_all_if headIn_single headIn_Nil) simp_all

lemma constraintOptionCheck_head:
  "list_all (headIn [''In'']) (constraintOptionCheck part sn fn t ek)"
  by (simp add: constraintOptionCheck_def headIn_def msgHead_def split: list.splits)

lemma validateTagValue_head:
  "list_all (headIn [''In'', ''Ty'', ''Co'', ''Ch'', ''De'', ''Fo'', ''Re'', ''Ma'', ''jo'', ''Em''])
     (validateTagValue key v sn fn t ok)"
  unfolding validateTagValue_def Let_def
  apply (intro list_all_appendI list_all_if headIn_single headIn_Nil)
                      apply simp_all
  subgoal by (erule disjE) simp_all
  subgoal
    by (rule list_all_concat_map) (rule headIn_mono [OF constraintOptionCheck_head], simp)
  done

lemma validateTagCombinations_head:
  "list_all (headIn [[apostrophe, CHR ''p''], ''Fi'', ''Co'', [apostrophe, CHR ''f''],
            [apostrophe, CHR ''m''], [apostrophe, CHR ''e'']])
     (validateTagCombinations keys ck sn fn t ok)"
  unfolding validateTagCombinations_def Let_def
  by (intro list_all_appendI list_all_if headIn_single headIn_Nil) simp_all

lemma entryDiagnostics_head:
  "list_all (headIn entryHeads) (entryDiagnostics s f keys cv p)"
  unfolding entryDiagnostics_def Let_def
  apply (intro list_all_appendI)
  subgoal by (rule headIn_mono [OF duplicateKeyCheck_head]) (simp add: entryHeads_def)
  subgoal by (rule headIn_mono [OF primaryKeyUniqueCheck_head]) (simp add: entryHeads_def)
  subgoal by (rule headIn_mono [OF duplicateColumnCheck_head]) (simp add: entryHeads_def)
  subgoal by (rule headIn_mono [OF keyValidityCheck_head]) (simp add: entryHeads_def)
  subgoal by (rule headIn_mono [OF validateTagValue_head]) (simp add: entryHeads_def)
  subgoal by (rule headIn_mono [OF validateTagCombinations_head]) (simp add: entryHeads_def)
  done

lemma partsDiagnostics_head:
  "list_all (headIn entryHeads) (partsDiagnostics s f keys cv ps)"
  by (induction ps arbitrary: keys cv) (simp_all add: entryDiagnostics_head)

lemma fieldsDiagnostics_head:
  "list_all (headIn entryHeads) (fieldsDiagnostics s cv fs)"
  by (induction fs arbitrary: cv) (simp_all add: partsDiagnostics_head)

lemma sharedIndexNames_head:
  "list_all (headIn [''In'']) (sharedIndexNames s idx)"
  unfolding sharedIndexNames_def
  apply (rule list_all_concat_map)
  apply (simp only: split_def)
  apply (intro list_all_if headIn_Nil list_all_concat_map)
  apply (simp add: headIn_def msgHead_def split: option.splits)
  done

lemma filter_message_heads:
  assumes "list_all (headIn H) xs" and "take 2 m \<notin> set H"
  shows "filter (\<lambda>d. message d = m) xs = []"
  using assms by (induction xs) (auto simp: headIn_def msgHead_def)

lemma multiplePrimaryKeys_messages:
  "list_all (\<lambda>d. message d = multiplePrimaryKeysMessage) (multiplePrimaryKeys s pk)"
  unfolding multiplePrimaryKeys_def
  apply (intro list_all_if list_all_concat_map)
   apply (simp_all add: multiplePrimaryKeysMessage_def split: option.splits)
  done

lemma filter_all: "list_all P xs \<Longrightarrow> filter P xs = xs"
  by (induction xs) simp_all

text \<open>The multiple-primary-key errors of a struct are those of the struct-wide pass.\<close>

lemma validateStruct_multiplePrimaryKeys:
  "filter (\<lambda>d. message d = multiplePrimaryKeysMessage) (validateStruct s) =
     multiplePrimaryKeys s (concat (map primaryKeyEntries (fields' s)))"
proof -
  obtain idx where e: "validateStruct s =
     fieldsDiagnostics s Map.empty (fields' s) @
     multiplePrimaryKeys s (concat (map primaryKeyEntries (fields' s))) @
     sharedIndexNames s idx"
    using validateStruct_eq by blast
  have 1: "filter (\<lambda>d. message d = multiplePrimaryKeysMessage)
             (fieldsDiagnostics s Map.empty (fields' s)) = []"
    by (rule filter_message_heads [OF fieldsDiagnostics_head])
       (simp add: multiplePrimaryKeysMessage_def entryHeads_def)
  have 2: "filter (\<lambda>d. message d = multiplePrimaryKeysMessage) (sharedIndexNames s idx) = []"
    by (rule filter_message_heads [OF sharedIndexNames_head])
       (simp add: multiplePrimaryKeysMessage_def)
  show ?thesis
    by (simp add: e 1 2 filter_all [OF multiplePrimaryKeys_messages])
qed

lemma field_diagnostics_in_fields:
  "f \<in> set fs \<Longrightarrow>
   \<exists>cv'. set (partsDiagnostics s f [] cv' (tagParts (gormTag f))) \<subseteq>
          set (fieldsDiagnostics s cv fs)"
proof (induction fs arbitrary: cv)
  case Nil
  then show ?case by simp
next
  case (Cons g fs)
  show ?case
  proof (cases "f = g")
    case True
    then have "set (partsDiagnostics s f [] cv (tagParts (gormTag f))) \<subseteq>
               set (fieldsDiagnostics s cv (g # fs))" by simp
    then show ?thesis by (rule exI [where x = cv])
  next
    case False
    with Cons.prems have "f \<in> set fs" by simp
    from Cons.IH [OF this, of "fieldColumns cv g"] show ?thesis by auto
  qed
qed

lemma fields_in_struct: "set (fieldsDiagnostics s Map.empty (fields' s)) \<subseteq> set (validateStruct s)"
  using validateStruct_eq [of s] by auto

lemma struct_in_all: "s \<in> set structs \<Longrightarrow> set (validateStruct s) \<subseteq> set (validateGormTags structs)"
  by (auto simp: validateGormTags_concat)

lemma field_diagnostics_reported:
  assumes "s \<in> set structs" and "f \<in> set (fields' s)"
  shows "\<exists>cv'. set (partsDiagnostics s f [] cv' (tagParts (gormTag f))) \<subseteq>
               set (validateGormTags structs)"
proof -
  from field_diagnostics_in_fields [OF assms(2)] obtain cv' where
    "set (partsDiagnostics s f [] cv' (tagParts (gormTag f))) \<subseteq>
     set (fieldsDiagnostics s Map.empty (fields' s))" by blast
  with fields_in_struct [of s] struct_in_all [OF assms(1)] show ?thesis by blast
qed

lemma set_setAdd: "set (setAdd keys k) = insert k (set keys)"
  by (auto simp: setAdd_def)

lemma entry_duplicate_key:
  assumes "lowerKeyOf p \<in> set keys"
  shows "\<exists>d \<in> set (entryDiagnostics s f keys cv p). isDuplicateKeyError s f (lowerKeyOf p) d"
proof -
  let ?d = "Diag (GoStruct.name s) (GormTag.name f) (gormTag f)
              (duplicateKeyMessage (partKey p)) error (Some (partKey p))"
  from assms have "?d \<in> set (entryDiagnostics s f keys cv p)"
    by (simp add: entryDiagnostics_def Let_def duplicateKeyCheck_def lowerKeyOf_def
          duplicateKeyMessage_def)
  moreover have "isDuplicateKeyError s f (lowerKeyOf p) ?d"
    by (auto simp: isDuplicateKeyError_def lowerKeyOf_def)
  ultimately show ?thesis by blast
qed

lemma parts_duplicate_key_seen:
  "k \<in> set keys \<Longrightarrow> k \<in> set (map lowerKeyOf ps) \<Longrightarrow>
   \<exists>d \<in> set (partsDiagnostics s f keys cv ps). isDuplicateKeyError s f k d"
proof (induction ps arbitrary: keys cv)
  case Nil
  then show ?case by simp
next
  case (Cons p ps)
  show ?case
  proof (cases "lowerKeyOf p = k")
    case True
    with Cons.prems(1) entry_duplicate_key [of p keys s f cv] show ?thesis by auto
  next
    case False
    with Cons.prems have "k \<in> set (setAdd keys (lowerKeyOf p))" "k \<in> set (map lowerKeyOf ps)"
      by (auto simp: set_setAdd)
    from Cons.IH [OF this] show ?thesis by auto
  qed
qed

lemma parts_duplicate_key:
  "2 \<le> count_list (map lowerKeyOf ps) k \<Longrightarrow>
   \<exists>d \<in> set (partsDiagnostics s f keys cv ps). isDuplicateKeyError s f k d"
proof (induction ps arbitrary: keys cv)
  case Nil
  then show ?case by simp
next
  case (Cons p ps)
  show ?case
  proof (cases "lowerKeyOf p = k")
    case True
    with Cons.prems have "1 \<le> count_list (map lowerKeyOf ps) k" by simp
    then have "k \<in> set (map lowerKeyOf ps)"
      by (metis count_list_0_iff not_one_le_zero)
    moreover from True have "k \<in> set (setAdd keys (lowerKeyOf p))" by (simp add: set_setAdd)
    ultimately show ?thesis
      using parts_duplicate_key_seen [of k "setAdd keys (lowerKeyOf p)" ps s f] by auto
  next
    case False
    with Cons.prems have "2 \<le> count_list (map lowerKeyOf ps) k" by simp
    from Cons.IH [OF this] show ?thesis by auto
  qed
qed

lemma entry_primaryKey_unique:
  assumes "''primarykey'' \<in> set (setAdd keys (lowerKeyOf p))"
      and "''unique'' \<in> set (setAdd keys (lowerKeyOf p))"
      and "lowerKeyOf p = ''primarykey'' \<or> lowerKeyOf p = ''unique''"
  shows "\<exists>d \<in> set (entryDiagnostics s f keys cv p). isPrimaryKeyUniqueError s f d"
proof -
  let ?c = "primaryKeyUniqueCheck (setAdd keys (lowerKeyOf p)) (lowerKeyOf p) (partKey p)
              (GoStruct.name s) (GormTag.name f) (gormTag f)"
  have sub: "set ?c \<subseteq> set (entryDiagnostics s f keys cv p)"
    by (auto simp: entryDiagnostics_def Let_def lowerKeyOf_def)
  from assms have "\<exists>d \<in> set ?c. isPrimaryKeyUniqueError s f d"
    by (auto simp: primaryKeyUniqueCheck_def isPrimaryKeyUniqueError_def
          primaryKeyUniqueMessages_def)
  with sub show ?thesis by blast
qed

lemma parts_primaryKey_unique:
  "''primarykey'' \<in> set keys \<union> set (map lowerKeyOf ps) \<Longrightarrow>
   ''unique'' \<in> set keys \<union> set (map lowerKeyOf ps) \<Longrightarrow>
   \<not> (''primarykey'' \<in> set keys \<and> ''unique'' \<in> set keys) \<Longrightarrow>
   \<exists>d \<in> set (partsDiagnostics s f keys cv ps). isPrimaryKeyUniqueError s f d"
proof (induction ps arbitrary: keys cv)
  case Nil
  then show ?case by simp
next
  case (Cons p ps)
  let ?keys' = "setAdd keys (lowerKeyOf p)"
  show ?case
  proof (cases "''primarykey'' \<in> set ?keys' \<and> ''unique'' \<in> set ?keys'")
    case True
    with Cons.prems(3) have "lowerKeyOf p = ''primarykey'' \<or> lowerKeyOf p = ''unique''"
      by (auto simp: set_setAdd)
    with True entry_primaryKey_unique [of keys p s f cv] show ?thesis by auto
  next
    case False
    moreover from Cons.prems have "''primarykey'' \<in> set ?keys' \<union> set (map lowerKeyOf ps)"
      "''unique'' \<in> set ?keys' \<union> set (map lowerKeyOf ps)"
      by (auto simp: set_setAdd)
    ultimately show ?thesis using Cons.IH [of ?keys'] by auto
  qed
qed

lemma length_filter_count_list:
  "length (filter (\<lambda>p. g p = k) ps) = count_list (map g ps) k"
  by (induction ps) simp_all

lemma primaryKeyEntries_eq:
  "primaryKeyEntries f =
     replicate (count_list (lowerKeys (gormTag f)) ''primarykey'') (GormTag.name f)"
  by (simp add: primaryKeyEntries_def lowerKeys_def map_replicate_const
        length_filter_count_list)


lemma find_by_name:
  "distinct (map GormTag.name fs) \<Longrightarrow> f \<in> set fs \<Longrightarrow>
   find (\<lambda>g. GormTag.name g = GormTag.name f) fs = Some f"
  by (induction fs) (auto simp: image_iff)

lemma declaredTag_distinct:
  "distinct (map GormTag.name (fields' s)) \<Longrightarrow> f \<in> set (fields' s) \<Longrightarrow>
   declaredTag s (GormTag.name f) = gormTag f"
  by (simp add: declaredTag_def find_by_name)

lemma find_named:
  "n \<in> GormTag.name ` set fs \<Longrightarrow>
   \<exists>g. find (\<lambda>g. GormTag.name g = n) fs = Some g \<and> GormTag.name g = n"
  by (induction fs) auto

lemma multiplePrimaryKeys_names:
  assumes "set ns \<subseteq> GormTag.name ` set (fields' s)"
  shows "multiplePrimaryKeys s ns =
         (if length ns > 1
          then map (\<lambda>n. Diag (GoStruct.name s) n (declaredTag s n)
                          multiplePrimaryKeysMessage error None) ns
          else [])"
proof -
  have "concat (map (\<lambda>fieldName.
          case find (\<lambda>f. GormTag.name f = fieldName) (fields' s) of
            Some field \<Rightarrow>
              [Diag (GoStruct.name s) (GormTag.name field) (gormTag field)
                 ''Multiple primary keys found in struct. Only one primary key is allowed.''
                 error None]
          | None \<Rightarrow> []) ns) =
        map (\<lambda>n. Diag (GoStruct.name s) n (declaredTag s n)
                          multiplePrimaryKeysMessage error None) ns"
    using assms
  proof (induction ns)
    case Nil
    then show ?case by simp
  next
    case (Cons n ns)
    from Cons.prems have "n \<in> GormTag.name ` set (fields' s)" by simp
    from find_named [OF this] obtain g where
      g: "find (\<lambda>g. GormTag.name g = n) (fields' s) = Some g" "GormTag.name g = n" by blast
    from Cons.prems have "set ns \<subseteq> GormTag.name ` set (fields' s)" by simp
    from Cons.IH [OF this] g show ?case
      by (simp add: declaredTag_def multiplePrimaryKeysMessage_def)
  qed
  then show ?thesis by (simp add: multiplePrimaryKeys_def)
qed

lemma primaryKeyEntries_names:
  "set (concat (map primaryKeyEntries fs)) \<subseteq> GormTag.name ` set fs"
  by (auto simp: primaryKeyEntries_def)

lemma struct_multiplicityErrors:
  "multiplicityErrors (validateGormTags [s]) =
   (if length (concat (map primaryKeyEntries (fields' s))) > 1
    then map (\<lambda>n. Diag (GoStruct.name s) n (declaredTag s n)
                    multiplePrimaryKeysMessage error None)
           (concat (map primaryKeyEntries (fields' s)))
    else [])"
  unfolding multiplicityErrors_def validateGormTags_single validateStruct_multiplePrimaryKeys
  by (rule multiplePrimaryKeys_names [OF primaryKeyEntries_names])

lemma map_concat_replicate:
  "map h (concat (map (\<lambda>g. replicate (c g) (n g)) fs)) =
   concat (map (\<lambda>g. replicate (c g) (h (n g))) fs)"
  by (induction fs) simp_all

lemma length_concat_member:
  "f \<in> set fs \<Longrightarrow> length (e f) \<le> length (concat (map e fs))"
  by (induction fs) auto

lemma filter_concat_replicate_distinct:
  assumes k: "\<And>g. key (D g) = nm g"
      and "distinct (map nm fs)" and "f \<in> set fs"
  shows "filter (\<lambda>d. key d = nm f) (concat (map (\<lambda>g. replicate (c g) (D g)) fs)) =
         replicate (c f) (D f)"
  using assms(2,3)
proof (induction fs)
  case Nil
  then show ?case by simp
next
  case (Cons g fs)
  show ?case
  proof (cases "g = f")
    case True
    with Cons.prems have "\<forall>h \<in> set fs. nm h \<noteq> nm f" by (auto simp: image_iff)
    then have "filter (\<lambda>d. key d = nm f) (concat (map (\<lambda>g. replicate (c g) (D g)) fs)) = []"
      by (induction fs) (simp_all add: k)
    with True show ?thesis by (simp add: k)
  next
    case False
    with Cons.prems have "f \<in> set fs" "nm g \<noteq> nm f" "distinct (map nm fs)"
      by (auto simp: image_iff)
    with Cons.IH show ?thesis by (simp add: k)
  qed
qed

lemma orKey_lower: "orKey (Some key) (toLowerCase key) = key"
  by (simp add: orKey_def toLowerCase_def)

lemma filter_heads:
  assumes "list_all (headIn H) xs" and "\<And>d. P d \<Longrightarrow> msgHead d \<notin> set H"
  shows "filter P xs = []"
  using assms by (induction xs) (auto simp: headIn_def)

lemma entry_filter_combinations:
  assumes "\<And>d. P d \<Longrightarrow> msgHead d \<in> set [''Fi'', [apostrophe, CHR ''f''],
                                   [apostrophe, CHR ''m''], [apostrophe, CHR ''e'']]"
  shows "filter P (entryDiagnostics s f keys cv p) =
         filter P (validateTagCombinations (setAdd keys (lowerKeyOf p)) (lowerKeyOf p)
                     (GoStruct.name s) (GormTag.name f) (gormTag f) (Some (partKey p)))"
proof -
  have 1: "filter P (duplicateKeyCheck keys lk key sn fn t) = []" for lk key sn fn t
    by (rule filter_heads [OF duplicateKeyCheck_head]) (use assms in fastforce)
  have 2: "filter P (primaryKeyUniqueCheck keys' lk key sn fn t) = []" for keys' lk key sn fn t
    by (rule filter_heads [OF primaryKeyUniqueCheck_head]) (use assms in fastforce)
  have 3: "filter P (duplicateColumnCheck cv lk key v sn fn t) = []" for lk key v sn fn t
    by (rule filter_heads [OF duplicateColumnCheck_head]) (use assms in fastforce)
  have 4: "filter P (keyValidityCheck lk key sn fn t) = []" for lk key sn fn t
    by (rule filter_heads [OF keyValidityCheck_head]) (use assms in fastforce)
  have 5: "filter P (validateTagValue lk v sn fn t ok) = []" for lk v sn fn t ok
    by (rule filter_heads [OF validateTagValue_head]) (use assms in fastforce)
  show ?thesis
    by (simp add: entryDiagnostics_def Let_def 1 2 3 4 5 lowerKeyOf_def)
qed

lemma orKey_lowerKeyOf: "orKey (Some (partKey p)) (lowerKeyOf p) = partKey p"
  by (simp add: lowerKeyOf_def orKey_lower)

lemma combinations_time:
  "filter (\<lambda>d. message d = timeTrackingMessage)
     (validateTagCombinations keys ck sn fn t (Some key)) =
   (if ''autocreatetime'' \<in> set keys \<and> ''autoupdatetime'' \<in> set keys \<and>
       ck = ''autoupdatetime''
    then [Diag sn fn t timeTrackingMessage warning (Some (orKey (Some key) ck))] else [])"
  by (simp add: validateTagCombinations_def Let_def timeTrackingMessage_def)

lemma entry_time:
  "filter (\<lambda>d. message d = timeTrackingMessage) (entryDiagnostics s f keys cv p) =
   (if lowerKeyOf p = ''autoupdatetime'' \<and> ''autocreatetime'' \<in> set keys
    then [Diag (GoStruct.name s) (GormTag.name f) (gormTag f) timeTrackingMessage warning
            (Some (partKey p))]
    else [])"
proof -
  have "filter (\<lambda>d. message d = timeTrackingMessage) (entryDiagnostics s f keys cv p) =
         filter (\<lambda>d. message d = timeTrackingMessage)
           (validateTagCombinations (setAdd keys (lowerKeyOf p)) (lowerKeyOf p)
              (GoStruct.name s) (GormTag.name f) (gormTag f) (Some (partKey p)))"
    by (rule entry_filter_combinations) (simp add: msgHead_def timeTrackingMessage_def)
  also have "\<dots> =
   (if lowerKeyOf p = ''autoupdatetime'' \<and> ''autocreatetime'' \<in> set keys
    then [Diag (GoStruct.name s) (GormTag.name f) (gormTag f) timeTrackingMessage warning
            (Some (partKey p))]
    else [])"
  proof (cases "lowerKeyOf p = ''autoupdatetime''")
    case True
    with orKey_lowerKeyOf [of p]
    have "orKey (Some (partKey p)) ''autoupdatetime'' = partKey p" by simp
    with True show ?thesis
      by (simp add: combinations_time set_setAdd)
  next
    case False
    then show ?thesis by (simp add: combinations_time)
  qed
  finally show ?thesis .
qed

lemma parts_time:
  "filter (\<lambda>d. message d = timeTrackingMessage) (partsDiagnostics s f keys cv ps) =
   map (\<lambda>p. Diag (GoStruct.name s) (GormTag.name f) (gormTag f) timeTrackingMessage warning
               (Some (partKey p)))
     (filter (\<lambda>p. lowerKeyOf p = ''autoupdatetime'')
        (if ''autocreatetime'' \<in> set keys then ps
         else drop 1 (dropWhile (\<lambda>p. lowerKeyOf p \<noteq> ''autocreatetime'') ps)))"
  by (induction ps arbitrary: keys cv) (simp_all add: entry_time set_setAdd)

lemma fields_time:
  "filter (\<lambda>d. message d = timeTrackingMessage) (fieldsDiagnostics s cv fs) =
   concat (map (\<lambda>f.
     map (\<lambda>p. Diag (GoStruct.name s) (GormTag.name f) (gormTag f) timeTrackingMessage warning
                 (Some (partKey p)))
       (filter (\<lambda>p. lowerKeyOf p = ''autoupdatetime'')
          (drop 1 (dropWhile (\<lambda>p. lowerKeyOf p \<noteq> ''autocreatetime'')
             (tagParts (gormTag f)))))) fs)"
  by (induction fs arbitrary: cv) (simp_all add: parts_time)

lemma struct_time_findings:
  "coOccurrenceFindings (validateStruct s) =
   coOccurrenceFindings (fieldsDiagnostics s Map.empty (fields' s))"
proof -
  obtain idx where e: "validateStruct s =
     fieldsDiagnostics s Map.empty (fields' s) @
     multiplePrimaryKeys s (concat (map primaryKeyEntries (fields' s))) @
     sharedIndexNames s idx"
    using validateStruct_eq by blast
  have 1: "coOccurrenceFindings
            (multiplePrimaryKeys s (concat (map primaryKeyEntries (fields' s)))) = []"
    using multiplePrimaryKeys_messages [of s "concat (map primaryKeyEntries (fields' s))"]
    by (auto simp: coOccurrenceFindings_def filter_empty_conv list_all_iff
          multiplePrimaryKeysMessage_def timeTrackingMessage_def)
  have 2: "coOccurrenceFindings (sharedIndexNames s idx) = []"
    unfolding coOccurrenceFindings_def
    by (rule filter_heads [OF sharedIndexNames_head])
       (simp add: msgHead_def timeTrackingMessage_def)
  show ?thesis
    using 1 2 by (simp add: e coOccurrenceFindings_def)
qed

lemma indexOf_lower_bound: "- 1 \<le> indexOf s pat"
  by (induction s) (simp_all add: Let_def)

lemma includes_char: "includes_str s [c] \<longleftrightarrow> c \<in> set s"
proof (induction s)
  case Nil
  then show ?case by (simp add: includes_str_def)
next
  case (Cons x xs)
  have "- 1 \<le> indexOf xs [c]" by (rule indexOf_lower_bound)
  with Cons show ?case
    by (auto simp: includes_str_def Let_def)
qed

lemma apostrophe_not_whitespace: "\<not> isWhitespace apostrophe"
  by (simp add: isWhitespace_def)

lemma noValue_with_apostrophe: "apostrophe \<in> set v \<Longrightarrow> \<not> noValue v"
  using apostrophe_not_whitespace by (auto simp: noValue_def trim_empty_iff)

lemma quoteLoop_counted:
  "\<not> (inSingleQuote st \<and> inDoubleQuote st) \<Longrightarrow>
   singleQuoteCount (quoteLoop prev v st) =
     singleQuoteCount st +
     count_list (countedQuotes (openSpan st) (unescapedQuoteChars prev v)) apostrophe \<and>
   doubleQuoteCount (quoteLoop prev v st) =
     doubleQuoteCount st +
     count_list (countedQuotes (openSpan st) (unescapedQuoteChars prev v)) dquote"
proof (induction v arbitrary: prev st)
  case Nil
  then show ?case by simp
next
  case (Cons c cs)
  let ?st = "quoteStep prev c st"
  from Cons.prems have inv: "\<not> (inSingleQuote ?st \<and> inDoubleQuote ?st)"
    by (auto simp: quoteStep_def)
  from Cons.prems have step:
    "singleQuoteCount ?st +
       count_list (countedQuotes (openSpan ?st) (unescapedQuoteChars (Some c) cs)) apostrophe =
     singleQuoteCount st +
       count_list (countedQuotes (openSpan st) (unescapedQuoteChars prev (c # cs))) apostrophe"
    "doubleQuoteCount ?st +
       count_list (countedQuotes (openSpan ?st) (unescapedQuoteChars (Some c) cs)) dquote =
     doubleQuoteCount st +
       count_list (countedQuotes (openSpan st) (unescapedQuoteChars prev (c # cs))) dquote"
    by (auto simp: quoteStep_def openSpan_def)
  from Cons.IH [OF inv, of "Some c"] step show ?case by simp
qed

lemma quoteScan_counted:
  "singleQuoteCount (quoteScan v) =
     count_list (countedQuotes None (unescapedQuoteChars None v)) apostrophe \<and>
   doubleQuoteCount (quoteScan v) =
     count_list (countedQuotes None (unescapedQuoteChars None v)) dquote"
  using quoteLoop_counted [of "\<lparr>singleQuoteCount = 0, doubleQuoteCount = 0,
        inSingleQuote = False, inDoubleQuote = False\<rparr>" None v]
  by (simp add: quoteScan_def openSpan_def)

lemma quoteLoop_no_single:
  "apostrophe \<notin> set v \<Longrightarrow>
   singleQuoteCount (quoteLoop prev v st) = singleQuoteCount st"
  by (induction v arbitrary: prev st) (auto simp: quoteStep_def)

lemma quoteLoop_no_double:
  "dquote \<notin> set v \<Longrightarrow>
   doubleQuoteCount (quoteLoop prev v st) = doubleQuoteCount st"
  by (induction v arbitrary: prev st) (auto simp: quoteStep_def)

lemma dquote_not_whitespace: "\<not> isWhitespace dquote"
  by (simp add: isWhitespace_def)

lemma noValue_with_dquote: "dquote \<in> set v \<Longrightarrow> \<not> noValue v"
  using dquote_not_whitespace by (auto simp: noValue_def trim_empty_iff)

lemma odd_single_has_value:
  assumes "odd (singleQuoteCount (quoteScan v))"
  shows "\<not> noValue v"
proof -
  have "apostrophe \<in> set v"
  proof (rule ccontr)
    assume "apostrophe \<notin> set v"
    from quoteLoop_no_single [OF this] have "singleQuoteCount (quoteScan v) = 0"
      by (simp add: quoteScan_def)
    with assms show False by simp
  qed
  then show ?thesis by (rule noValue_with_apostrophe)
qed

lemma odd_double_has_value:
  assumes "odd (doubleQuoteCount (quoteScan v))"
  shows "\<not> noValue v"
proof -
  have "dquote \<in> set v"
  proof (rule ccontr)
    assume "dquote \<notin> set v"
    from quoteLoop_no_double [OF this] have "doubleQuoteCount (quoteScan v) = 0"
      by (simp add: quoteScan_def)
    with assms show False by simp
  qed
  then show ?thesis by (rule noValue_with_dquote)
qed

lemma checkQuoteClosure_hasError:
  "hasError (checkQuoteClosure v) \<longleftrightarrow>
     odd (singleQuoteCount (quoteScan v)) \<or> odd (doubleQuoteCount (quoteScan v))"
  by (simp add: checkQuoteClosure_def Let_def odd_iff_mod_2_eq_one)

lemma comment_unbalanced_single:
  assumes "odd (singleQuoteCount (quoteScan v))" and "\<not> noValue v"
  shows "errorsOf (validateTagValue ''comment'' v sn fn t ok) =
           [Diag sn fn t (unmatchedQuotesMessage ''single'' (singleQuoteCount (quoteScan v)))
              error (Some (orKey ok ''comment''))]"
  using assms
  by (simp add: validateTagValue_def Let_def checkQuoteClosure_def errorsOf_def
        odd_iff_mod_2_eq_one unmatchedQuotesMessage_def interpolate_def)

lemma comment_unbalanced_double:
  assumes "even (singleQuoteCount (quoteScan v))" and "odd (doubleQuoteCount (quoteScan v))"
      and "\<not> noValue v"
  shows "errorsOf (validateTagValue ''comment'' v sn fn t ok) =
           [Diag sn fn t (unmatchedQuotesMessage ''double'' (doubleQuoteCount (quoteScan v)))
              error (Some (orKey ok ''comment''))]"
  using assms
  by (simp add: validateTagValue_def Let_def checkQuoteClosure_def errorsOf_def
        odd_iff_mod_2_eq_one unmatchedQuotesMessage_def interpolate_def)

lemma comment_balanced:
  assumes "even (singleQuoteCount (quoteScan v))" and "even (doubleQuoteCount (quoteScan v))"
  shows "errorsOf (validateTagValue ''comment'' v sn fn t ok) = []"
  using assms
  by (simp add: validateTagValue_def Let_def checkQuoteClosure_def errorsOf_def
        odd_iff_mod_2_eq_one)

lemma comment_mixed_balanced:
  assumes "apostrophe \<in> set v" and "dquote \<in> set v"
      and "even (singleQuoteCount (quoteScan v))" and "even (doubleQuoteCount (quoteScan v))"
  shows "validateTagValue ''comment'' v sn fn t ok =
           [Diag sn fn t mixedQuotesMessage warning (Some (orKey ok ''comment''))]"
  using assms noValue_with_apostrophe [OF assms(1)]
  by (simp add: validateTagValue_def Let_def checkQuoteClosure_def odd_iff_mod_2_eq_one
        includes_char mixedQuotesMessage_def)

lemma isDuplicateColumnError_head: "isDuplicateColumnError d \<Longrightarrow> msgHead d = ''Du''"
  by (auto simp: isDuplicateColumnError_def msgHead_def prefix_def)

lemma isDuplicateColumnError_message:
  "isDuplicateColumnError (Diag sn fn t (duplicateColumnMessage w own) l e)"
  by (simp add: isDuplicateColumnError_def duplicateColumnMessage_def)

lemma duplicateKeyCheck_not_column:
  "filter isDuplicateColumnError (duplicateKeyCheck keys lk key sn fn t) = []"
  by (simp add: duplicateKeyCheck_def isDuplicateColumnError_def)

lemma entry_filter_column:
  "filter isDuplicateColumnError (entryDiagnostics s f keys cv p) =
   filter isDuplicateColumnError
     (duplicateColumnCheck cv (lowerKeyOf p) (partKey p) (partValue p)
        (GoStruct.name s) (GormTag.name f) (gormTag f))"
proof -
  let ?P = "isDuplicateColumnError"
  have 2: "filter ?P (primaryKeyUniqueCheck keys' lk key sn fn t) = []" for keys' lk key sn fn t
    by (rule filter_heads [OF primaryKeyUniqueCheck_head])
       (simp add: isDuplicateColumnError_head)
  have 4: "filter ?P (keyValidityCheck lk key sn fn t) = []" for lk key sn fn t
    by (rule filter_heads [OF keyValidityCheck_head]) (simp add: isDuplicateColumnError_head)
  have 5: "filter ?P (validateTagValue lk w sn fn t ok) = []" for lk w sn fn t ok
    by (rule filter_heads [OF validateTagValue_head]) (simp add: isDuplicateColumnError_head)
  have 6: "filter ?P (validateTagCombinations keys' lk sn fn t ok) = []" for keys' lk sn fn t ok
    by (rule filter_heads [OF validateTagCombinations_head])
       (simp add: isDuplicateColumnError_head)
  show ?thesis
    by (simp add: entryDiagnostics_def Let_def duplicateKeyCheck_not_column 2 4 5 6
          lowerKeyOf_def)
qed

lemma duplicateColumnCheck_entry:
  "duplicateColumnCheck cv (lowerKeyOf p) key (partValue p) sn fn t =
   (if isColumnEntry p then
      (case cv (partValue p) of
         Some existing \<Rightarrow>
           [Diag sn fn t (duplicateColumnMessage (partValue p) existing) error (Some key)]
       | None \<Rightarrow> [])
    else [])"
  by (simp add: duplicateColumnCheck_def isColumnEntry_def)

lemma entry_column:
  "filter isDuplicateColumnError (entryDiagnostics s f keys cv p) =
   (if isColumnEntry p then
      (case cv (partValue p) of
         Some existing \<Rightarrow>
           [Diag (GoStruct.name s) (GormTag.name f) (gormTag f)
              (duplicateColumnMessage (partValue p) existing) error (Some (partKey p))]
       | None \<Rightarrow> [])
    else [])"
proof -
  have e: "filter isDuplicateColumnError (entryDiagnostics s f keys cv p) =
     filter isDuplicateColumnError
       (if isColumnEntry p then
          (case cv (partValue p) of
             Some existing \<Rightarrow>
               [Diag (GoStruct.name s) (GormTag.name f) (gormTag f)
                  (duplicateColumnMessage (partValue p) existing) error (Some (partKey p))]
           | None \<Rightarrow> [])
        else [])"
    by (subst entry_filter_column, subst duplicateColumnCheck_entry, rule refl)
  show ?thesis
  proof (cases "isColumnEntry p")
    case False
    with e show ?thesis by simp
  next
    case col: True
    show ?thesis
    proof (cases "cv (partValue p)")
      case None
      with col e show ?thesis by simp
    next
      case (Some existing)
      with col e isDuplicateColumnError_message show ?thesis by simp
    qed
  qed
qed

lemma entry_column_other:
  "\<not> isColumnEntry p \<Longrightarrow> filter isDuplicateColumnError (entryDiagnostics s f keys cv p) = []"
  by (simp add: entry_column)

lemma entry_column_fresh:
  "cv (partValue p) = None \<Longrightarrow>
   filter isDuplicateColumnError (entryDiagnostics s f keys cv p) = []"
  by (simp add: entry_column)

lemma entry_column_owned:
  "isColumnEntry p \<Longrightarrow> cv (partValue p) = Some own \<Longrightarrow>
   filter isDuplicateColumnError (entryDiagnostics s f keys cv p) =
     [Diag (GoStruct.name s) (GormTag.name f) (gormTag f)
        (duplicateColumnMessage (partValue p) own) error (Some (partKey p))]"
  by (simp add: entry_column)

lemma recordColumn_eq:
  "recordColumn fn cv p =
   (if isColumnEntry p \<and> cv (partValue p) = None then cv(partValue p \<mapsto> fn) else cv)"
  by (auto simp: recordColumn_def isColumnEntry_def lowerKeyOf_def Let_def
        split: option.splits)

lemma parts_columns:
  "foldl (recordColumn fn) cv ps w =
   (case cv w of
      Some own \<Rightarrow> Some own
    | None \<Rightarrow> if w \<in> set (map partValue (filter isColumnEntry ps)) then Some fn else None)"
proof (induction ps arbitrary: cv)
  case Nil
  then show ?case by (simp split: option.splits)
next
  case (Cons p ps)
  show ?case
    by (simp add: Cons.IH) (auto simp: recordColumn_eq split: option.splits)
qed

lemma fieldColumns_eq:
  "fieldColumns cv f w =
   (case cv w of
      Some own \<Rightarrow> Some own
    | None \<Rightarrow> if w \<in> set (columnEntries (gormTag f)) then Some (GormTag.name f) else None)"
  by (simp add: fieldColumns_def parts_columns columnEntries_def)

lemma fields_columns_kept:
  "cv w = Some own \<Longrightarrow> foldl fieldColumns cv fs w = Some own"
  by (induction fs arbitrary: cv) (simp_all add: fieldColumns_eq)

lemma fields_columns_absent:
  "cv w = None \<Longrightarrow> w \<notin> set (concat (map (\<lambda>f. columnEntries (gormTag f)) fs)) \<Longrightarrow>
   foldl fieldColumns cv fs w = None"
  by (induction fs arbitrary: cv) (simp_all add: fieldColumns_eq)

lemma recordColumn_fresh:
  assumes "partValue p \<notin> E" and "\<forall>w \<in> E. cv w = None"
  shows "\<forall>w \<in> E. recordColumn fn cv p w = None"
  using assms by (auto simp: recordColumn_eq)

lemma recordColumn_fresh_but:
  assumes "partValue p \<notin> E" and "\<forall>w \<in> E. w \<noteq> v \<longrightarrow> cv w = None"
  shows "\<forall>w \<in> E. w \<noteq> v \<longrightarrow> recordColumn fn cv p w = None"
  using assms by (auto simp: recordColumn_eq)

lemma fresh_but:
  assumes "v \<notin> E" and "\<forall>w \<in> E. w \<noteq> v \<longrightarrow> cv w = None"
  shows "\<forall>w \<in> E. cv w = None"
  using assms by auto

lemma parts_column_fresh:
  "distinct (map partValue (filter isColumnEntry ps)) \<Longrightarrow>
   \<forall>w \<in> set (map partValue (filter isColumnEntry ps)). cv w = None \<Longrightarrow>
   filter isDuplicateColumnError (partsDiagnostics s f keys cv ps) = []"
proof (induction ps arbitrary: keys cv)
  case Nil
  then show ?case by simp
next
  case (Cons p ps)
  show ?case
  proof (cases "isColumnEntry p")
    case False
    with Cons.prems have
      "distinct (map partValue (filter isColumnEntry ps))"
      "\<forall>w \<in> set (map partValue (filter isColumnEntry ps)). recordColumn (GormTag.name f) cv p w = None"
      by (simp_all add: recordColumn_eq)
    from Cons.IH [OF this] False show ?thesis by (simp add: entry_column_other)
  next
    case True
    with Cons.prems have fresh: "cv (partValue p) = None"
      and d: "distinct (map partValue (filter isColumnEntry ps))"
      and n: "partValue p \<notin> set (map partValue (filter isColumnEntry ps))"
      and r: "\<forall>w \<in> set (map partValue (filter isColumnEntry ps)). cv w = None"
      by simp_all
    from Cons.IH [OF d recordColumn_fresh [OF n r]] fresh show ?thesis
      by (simp add: entry_column_fresh)
  qed
qed

lemma parts_column_reused:
  "distinct (map partValue (filter isColumnEntry ps)) \<Longrightarrow>
   v \<in> set (map partValue (filter isColumnEntry ps)) \<Longrightarrow>
   cv v = Some own \<Longrightarrow>
   \<forall>w \<in> set (map partValue (filter isColumnEntry ps)). w \<noteq> v \<longrightarrow> cv w = None \<Longrightarrow>
   \<exists>key. toLowerCase key = ''column'' \<and>
     filter isDuplicateColumnError (partsDiagnostics s f keys cv ps) =
       [Diag (GoStruct.name s) (GormTag.name f) (gormTag f)
          (duplicateColumnMessage v own) error (Some key)]"
proof (induction ps arbitrary: keys cv)
  case Nil
  then show ?case by simp
next
  case (Cons p ps)
  let ?cv = "recordColumn (GormTag.name f) cv p"
  let ?keys = "setAdd keys (lowerKeyOf p)"
  show ?case
  proof (cases "isColumnEntry p")
    case False
    then have same: "?cv = cv" by (simp add: recordColumn_eq)
    from False Cons.prems have
      "distinct (map partValue (filter isColumnEntry ps))"
      "v \<in> set (map partValue (filter isColumnEntry ps))"
      "\<forall>w \<in> set (map partValue (filter isColumnEntry ps)). w \<noteq> v \<longrightarrow> cv w = None"
      by simp_all
    from Cons.IH [OF this(1,2) Cons.prems(3) this(3), of ?keys] False same
    show ?thesis by (simp add: entry_column_other)
  next
    case col: True
    with Cons.prems have d: "distinct (map partValue (filter isColumnEntry ps))"
      and n: "partValue p \<notin> set (map partValue (filter isColumnEntry ps))"
      by simp_all
    show ?thesis
    proof (cases "partValue p = v")
      case True
      with Cons.prems(3) have same: "?cv = cv" by (simp add: recordColumn_eq)
      from True n have "v \<notin> set (map partValue (filter isColumnEntry ps))" by simp
      moreover from Cons.prems(4) have
        "\<forall>w \<in> set (map partValue (filter isColumnEntry ps)). w \<noteq> v \<longrightarrow> cv w = None"
        by simp
      ultimately have "\<forall>w \<in> set (map partValue (filter isColumnEntry ps)). cv w = None"
        by (rule fresh_but)
      from parts_column_fresh [OF d this, of s f ?keys]
      have rest: "filter isDuplicateColumnError (partsDiagnostics s f ?keys cv ps) = []" .
      from col have key: "toLowerCase (partKey p) = ''column''"
        by (simp add: isColumnEntry_def lowerKeyOf_def)
      from col True Cons.prems(3)
      have "filter isDuplicateColumnError (entryDiagnostics s f keys cv p) =
        [Diag (GoStruct.name s) (GormTag.name f) (gormTag f)
           (duplicateColumnMessage v own) error (Some (partKey p))]"
        by (simp add: entry_column_owned)
      with rest same have
        "filter isDuplicateColumnError (partsDiagnostics s f keys cv (p # ps)) =
          [Diag (GoStruct.name s) (GormTag.name f) (gormTag f)
             (duplicateColumnMessage v own) error (Some (partKey p))]"
        by simp
      with key show ?thesis by blast
    next
      case False
      with col Cons.prems have fresh: "cv (partValue p) = None"
        and v: "v \<in> set (map partValue (filter isColumnEntry ps))"
        by simp_all
      from False Cons.prems(3) have own: "?cv v = Some own"
        by (simp add: recordColumn_eq)
      from Cons.prems(4) have
        "\<forall>w \<in> set (map partValue (filter isColumnEntry ps)). w \<noteq> v \<longrightarrow> cv w = None"
        by simp
      from recordColumn_fresh_but [OF n this]
      have r: "\<forall>w \<in> set (map partValue (filter isColumnEntry ps)). w \<noteq> v \<longrightarrow> ?cv w = None" .
      from Cons.IH [OF d v own r, of ?keys] fresh show ?thesis
        by (simp add: entry_column_fresh)
    qed
  qed
qed

lemma fieldsDiagnostics_append:
  "fieldsDiagnostics s cv (xs @ ys) =
   fieldsDiagnostics s cv xs @ fieldsDiagnostics s (foldl fieldColumns cv xs) ys"
  by (induction xs arbitrary: cv) simp_all

lemma fields_column_fresh:
  "distinct (concat (map (\<lambda>f. columnEntries (gormTag f)) fs)) \<Longrightarrow>
   \<forall>w \<in> set (concat (map (\<lambda>f. columnEntries (gormTag f)) fs)). cv w = None \<Longrightarrow>
   filter isDuplicateColumnError (fieldsDiagnostics s cv fs) = []"
proof (induction fs arbitrary: cv)
  case Nil
  then show ?case by simp
next
  case (Cons f fs)
  from Cons.prems have d1: "distinct (columnEntries (gormTag f))"
    and d2: "distinct (concat (map (\<lambda>f. columnEntries (gormTag f)) fs))"
    and dj: "set (columnEntries (gormTag f)) \<inter>
             set (concat (map (\<lambda>f. columnEntries (gormTag f)) fs)) = {}"
    and n1: "\<forall>w \<in> set (columnEntries (gormTag f)). cv w = None"
    and n2: "\<forall>w \<in> set (concat (map (\<lambda>f. columnEntries (gormTag f)) fs)). cv w = None"
    by simp_all
  from d1 n1 have
    1: "filter isDuplicateColumnError (partsDiagnostics s f [] cv (tagParts (gormTag f))) = []"
    by (intro parts_column_fresh) (simp_all add: columnEntries_def)
  from dj n2 have
    "\<forall>w \<in> set (concat (map (\<lambda>f. columnEntries (gormTag f)) fs)). fieldColumns cv f w = None"
    by (auto simp: fieldColumns_eq)
  from Cons.IH [OF d2 this] 1 show ?case by simp
qed

lemma field_column_reused:
  assumes "distinct (columnEntries (gormTag f))"
      and "v \<in> set (columnEntries (gormTag f))"
      and "cv v = Some own"
      and "\<forall>w \<in> set (columnEntries (gormTag f)). w \<noteq> v \<longrightarrow> cv w = None"
  shows "\<exists>key. toLowerCase key = ''column'' \<and>
           filter isDuplicateColumnError (fieldsDiagnostics s cv [f]) =
             [Diag (GoStruct.name s) (GormTag.name f) (gormTag f)
                (duplicateColumnMessage v own) error (Some key)]"
  using parts_column_reused [of "tagParts (gormTag f)" v cv own s f "[]"] assms
  by (simp add: columnEntries_def)

lemma struct_column_errors:
  "duplicateColumnErrors (validateStruct s) =
   filter isDuplicateColumnError (fieldsDiagnostics s Map.empty (fields' s))"
proof -
  obtain idx where e: "validateStruct s =
     fieldsDiagnostics s Map.empty (fields' s) @
     multiplePrimaryKeys s (concat (map primaryKeyEntries (fields' s))) @
     sharedIndexNames s idx"
    using validateStruct_eq by blast
  have 1: "filter isDuplicateColumnError
            (multiplePrimaryKeys s (concat (map primaryKeyEntries (fields' s)))) = []"
    using multiplePrimaryKeys_messages [of s "concat (map primaryKeyEntries (fields' s))"]
    by (auto simp: filter_empty_conv list_all_iff multiplePrimaryKeysMessage_def
          msgHead_def dest!: isDuplicateColumnError_head)
  have 2: "filter isDuplicateColumnError (sharedIndexNames s idx) = []"
    by (rule filter_heads [OF sharedIndexNames_head]) (simp add: isDuplicateColumnError_head)
  show ?thesis
    using 1 2 by (simp add: e duplicateColumnErrors_def)
qed

lemma distinct_removeAll_once:
  "distinct (removeAll v xs) \<Longrightarrow> count_list xs v = 1 \<Longrightarrow> distinct xs"
proof (induction xs)
  case Nil
  then show ?case by simp
next
  case (Cons x xs)
  show ?case
  proof (cases "x = v")
    case True
    with Cons.prems(2) have "count_list xs v = 0" by simp
    then have n: "v \<notin> set xs" by (simp add: count_list_0_iff)
    with Cons.prems(1) True have "distinct xs" by simp
    with n True show ?thesis by simp
  next
    case False
    with Cons.prems have "distinct (removeAll v xs)" "count_list xs v = 1"
      "x \<notin> set xs" by auto
    with Cons.IH show ?thesis by simp
  qed
qed

lemma twice_counts:
  assumes "v \<in> set B" and "v \<in> set D" and "count_list (A @ B @ C @ D @ F) v = 2"
  shows "v \<notin> set A" and "v \<notin> set C" and "v \<notin> set F"
    and "count_list B v = 1" and "count_list D v = 1"
proof -
  from assms(1,2) have "count_list B v \<noteq> 0" "count_list D v \<noteq> 0"
    by (simp_all add: count_list_0_iff)
  moreover from assms(3) have
    "count_list A v + count_list B v + count_list C v + count_list D v + count_list F v = 2"
    by simp
  ultimately have "count_list A v = 0 \<and> count_list C v = 0 \<and> count_list F v = 0 \<and>
    count_list B v = 1 \<and> count_list D v = 1" by arith
  then show "v \<notin> set A" and "v \<notin> set C" and "v \<notin> set F"
    and "count_list B v = 1" and "count_list D v = 1"
    by (simp_all add: count_list_0_iff)
qed

lemma distinct_five:
  "distinct (A @ B @ C @ D @ F) \<Longrightarrow>
   distinct A \<and> distinct B \<and> distinct C \<and> distinct D \<and> distinct F \<and>
   set A \<inter> set B = {} \<and> set A \<inter> set C = {} \<and> set A \<inter> set D = {} \<and>
   set A \<inter> set F = {} \<and> set B \<inter> set C = {} \<and> set B \<inter> set D = {} \<and>
   set B \<inter> set F = {} \<and> set C \<inter> set D = {} \<and> set C \<inter> set F = {} \<and>
   set D \<inter> set F = {}"
  unfolding distinct_append set_append by blast

lemma removeAll_five:
  "v \<notin> set A \<Longrightarrow> v \<notin> set C \<Longrightarrow> v \<notin> set F \<Longrightarrow>
   removeAll v (A @ B @ C @ D @ F) = A @ removeAll v B @ C @ removeAll v D @ F"
  by simp

lemma twice_distinct:
  assumes "v \<in> set B" and "v \<in> set D" and "count_list (A @ B @ C @ D @ F) v = 2"
      and "distinct (removeAll v (A @ B @ C @ D @ F))"
  shows "distinct A" and "distinct B" and "distinct C" and "distinct D" and "distinct F"
    and "\<forall>w \<in> set B. w \<notin> set A"
    and "\<forall>w \<in> set C. w \<notin> set (A @ B)"
    and "\<forall>w \<in> set D. w \<noteq> v \<longrightarrow> w \<notin> set (A @ B @ C)"
    and "\<forall>w \<in> set F. w \<notin> set (A @ B @ C @ D)"
proof -
  note c = twice_counts [OF assms(1,2,3)]
  from assms(4) have "distinct (A @ removeAll v B @ C @ removeAll v D @ F)"
    by (simp only: removeAll_five [OF c(1,2,3)])
  from distinct_five [OF this]
  have d: "distinct A" "distinct (removeAll v B)" "distinct C"
      "distinct (removeAll v D)" "distinct F"
    and i: "set A \<inter> (set B - {v}) = {}" "set A \<inter> set C = {}" "set A \<inter> (set D - {v}) = {}"
      "set A \<inter> set F = {}" "(set B - {v}) \<inter> set C = {}"
      "(set B - {v}) \<inter> (set D - {v}) = {}" "(set B - {v}) \<inter> set F = {}"
      "set C \<inter> (set D - {v}) = {}" "set C \<inter> set F = {}" "(set D - {v}) \<inter> set F = {}"
    by (simp_all only: set_removeAll)
  from d(2) c(4) show "distinct B" by (rule distinct_removeAll_once)
  from d(4) c(5) show "distinct D" by (rule distinct_removeAll_once)
  from d show "distinct A" "distinct C" "distinct F" by simp_all
  from i(1) c(1) show "\<forall>w \<in> set B. w \<notin> set A" by blast
  from i(2,5) c(2) show "\<forall>w \<in> set C. w \<notin> set (A @ B)"
    unfolding set_append by blast
  from i(3,6,8) show "\<forall>w \<in> set D. w \<noteq> v \<longrightarrow> w \<notin> set (A @ B @ C)"
    unfolding set_append by blast
  from i(4,7,9,10) c(3) show "\<forall>w \<in> set F. w \<notin> set (A @ B @ C @ D)"
    unfolding set_append by blast
qed

lemma fields_none_before:
  assumes "\<forall>w \<in> set E. w \<notin> set (concat (map (\<lambda>f. columnEntries (gormTag f)) fs))"
  shows "\<forall>w \<in> set E. foldl fieldColumns Map.empty fs w = None"
  using assms by (simp add: fields_columns_absent)

lemma fields_none_before_but:
  assumes "\<forall>w \<in> set E. w \<noteq> v \<longrightarrow>
             w \<notin> set (concat (map (\<lambda>f. columnEntries (gormTag f)) fs))"
  shows "\<forall>w \<in> set E. w \<noteq> v \<longrightarrow> foldl fieldColumns Map.empty fs w = None"
  using assms by (simp add: fields_columns_absent)

lemma duplicate_column_only_error:
  assumes "fields' s = pre @ [fi] @ mid @ [fj] @ post"
      and "v \<in> set (columnEntries (gormTag fi))"
      and "v \<in> set (columnEntries (gormTag fj))"
      and "count_list (structColumnEntries s) v = 2"
      and "distinct (removeAll v (structColumnEntries s))"
  shows "\<exists>key. toLowerCase key = ''column'' \<and>
           duplicateColumnErrors (validateGormTags [s]) =
             [Diag (GoStruct.name s) (GormTag.name fj) (gormTag fj)
                (duplicateColumnMessage v (GormTag.name fi)) error (Some key)]"
proof -
  let ?E = "\<lambda>fs. concat (map (\<lambda>f. columnEntries (gormTag f)) fs)"
  let ?A = "?E pre" and ?B = "columnEntries (gormTag fi)" and ?C = "?E mid"
  let ?D = "columnEntries (gormTag fj)" and ?F = "?E post"
  let ?P = isDuplicateColumnError
  have all: "structColumnEntries s = ?A @ ?B @ ?C @ ?D @ ?F"
    by (simp add: structColumnEntries_def assms(1))
  note c = twice_counts [OF assms(2,3) assms(4) [unfolded all]]
  note d = twice_distinct [OF assms(2,3) assms(4) [unfolded all] assms(5) [unfolded all]]
  let ?cv1 = "foldl fieldColumns Map.empty pre"
  let ?cv2 = "foldl fieldColumns Map.empty (pre @ [fi])"
  let ?cv3 = "foldl fieldColumns Map.empty (pre @ [fi] @ mid)"
  let ?cv4 = "foldl fieldColumns Map.empty (pre @ [fi] @ mid @ [fj])"
  have split: "fieldsDiagnostics s Map.empty (fields' s) =
          fieldsDiagnostics s Map.empty pre @ fieldsDiagnostics s ?cv1 [fi] @
          fieldsDiagnostics s ?cv2 mid @ fieldsDiagnostics s ?cv3 [fj] @
          fieldsDiagnostics s ?cv4 post"
    by (simp add: assms(1) fieldsDiagnostics_append)
  have p1: "filter ?P (fieldsDiagnostics s Map.empty pre) = []"
    by (rule fields_column_fresh [OF d(1)]) simp
  have "\<forall>w \<in> set ?B. ?cv1 w = None"
    by (rule fields_none_before, rule d(6))
  then have p2: "filter ?P (fieldsDiagnostics s ?cv1 [fi]) = []"
    by (intro fields_column_fresh) (use d(2) in simp_all)
  have e2: "?E (pre @ [fi]) = ?A @ ?B" by simp
  have "\<forall>w \<in> set ?C. ?cv2 w = None"
    by (rule fields_none_before, unfold e2, rule d(7))
  then have p3: "filter ?P (fieldsDiagnostics s ?cv2 mid) = []"
    by (intro fields_column_fresh d(3))
  have "?cv1 v = None"
    by (rule fields_columns_absent) (use c(1) in simp_all)
  with assms(2) have "?cv2 v = Some (GormTag.name fi)"
    by (simp add: fieldColumns_eq)
  then have own: "?cv3 v = Some (GormTag.name fi)"
    using fields_columns_kept [of ?cv2 v "GormTag.name fi" mid] by simp
  have e3: "?E (pre @ [fi] @ mid) = ?A @ ?B @ ?C" by simp
  have "\<forall>w \<in> set ?D. w \<noteq> v \<longrightarrow> ?cv3 w = None"
    by (rule fields_none_before_but, unfold e3, rule d(8))
  from field_column_reused [OF d(4) assms(3) own this, of s]
  obtain key where key: "toLowerCase key = ''column''"
    and p4: "filter ?P (fieldsDiagnostics s ?cv3 [fj]) =
               [Diag (GoStruct.name s) (GormTag.name fj) (gormTag fj)
                  (duplicateColumnMessage v (GormTag.name fi)) error (Some key)]"
    by blast
  have e4: "?E (pre @ [fi] @ mid @ [fj]) = ?A @ ?B @ ?C @ ?D" by simp
  have "\<forall>w \<in> set ?F. ?cv4 w = None"
    by (rule fields_none_before, unfold e4, rule d(9))
  then have p5: "filter ?P (fieldsDiagnostics s ?cv4 post) = []"
    by (intro fields_column_fresh d(5))
  have "filter ?P (fieldsDiagnostics s Map.empty (fields' s)) =
               [Diag (GoStruct.name s) (GormTag.name fj) (gormTag fj)
                  (duplicateColumnMessage v (GormTag.name fi)) error (Some key)]"
    unfolding split using p1 p2 p3 p4 p5
    by (simp only: filter_append append_Nil append_Nil2)
  with key show ?thesis
    by (auto simp: validateGormTags_single struct_column_errors)
qed

lemma firstOwner_Nil: "firstOwner [] = Map.empty"
  by (rule ext) (simp add: firstOwner_def)

lemma firstOwner_append:
  "firstOwner (xs @ ys) w =
   (case firstOwner xs w of Some own \<Rightarrow> Some own | None \<Rightarrow> firstOwner ys w)"
  by (induction xs) (simp_all add: firstOwner_def)

lemma firstOwner_single:
  "firstOwner [u] w = (if partValue (snd u) = w then Some (GormTag.name (fst u)) else None)"
  by (simp add: firstOwner_def)

lemma recordColumn_use:
  "isColumnEntry p \<Longrightarrow>
   recordColumn (GormTag.name f) (firstOwner seen) p = firstOwner (seen @ [(f, p)])"
  by (rule ext)
     (auto simp: recordColumn_eq firstOwner_append firstOwner_single split: option.splits)

lemma recordColumn_no_use: "\<not> isColumnEntry p \<Longrightarrow> recordColumn fn cv p = cv"
  by (simp add: recordColumn_eq)

lemma parts_findings:
  "filter isDuplicateColumnError (partsDiagnostics s f keys (firstOwner seen) ps) =
   map snd (columnFindingsFrom s seen (map (Pair f) (filter isColumnEntry ps)))"
proof (induction ps arbitrary: keys seen)
  case Nil
  then show ?case by simp
next
  case (Cons p ps)
  show ?case
  proof (cases "isColumnEntry p")
    case False
    with Cons.IH [of "setAdd keys (lowerKeyOf p)" seen] show ?thesis
      by (simp add: entry_column_other recordColumn_no_use)
  next
    case True
    with Cons.IH [of "setAdd keys (lowerKeyOf p)" "seen @ [(f, p)]"] show ?thesis
      by (simp add: entry_column recordColumn_use split: option.splits)
  qed
qed

lemma parts_owner:
  "foldl (recordColumn (GormTag.name f)) (firstOwner seen) ps =
   firstOwner (seen @ map (Pair f) (filter isColumnEntry ps))"
proof (induction ps arbitrary: seen)
  case Nil
  then show ?case by simp
next
  case (Cons p ps)
  show ?case
  proof (cases "isColumnEntry p")
    case False
    with Cons.IH [of seen] show ?thesis by (simp add: recordColumn_no_use)
  next
    case True
    with Cons.IH [of "seen @ [(f, p)]"] show ?thesis by (simp add: recordColumn_use)
  qed
qed

lemma findings_append:
  "columnFindingsFrom s seen (xs @ ys) =
   columnFindingsFrom s seen xs @ columnFindingsFrom s (seen @ xs) ys"
  by (induction xs arbitrary: seen) simp_all

lemma fields_findings:
  "filter isDuplicateColumnError (fieldsDiagnostics s (firstOwner seen) fs) =
   map snd (columnFindingsFrom s seen
     (concat (map (\<lambda>f. map (Pair f) (filter isColumnEntry (tagParts (gormTag f)))) fs)))"
proof (induction fs arbitrary: seen)
  case Nil
  then show ?case by simp
next
  case (Cons f fs)
  have "fieldColumns (firstOwner seen) f =
        firstOwner (seen @ map (Pair f) (filter isColumnEntry (tagParts (gormTag f))))"
    by (simp add: fieldColumns_def parts_owner)
  with Cons.IH [of "seen @ map (Pair f) (filter isColumnEntry (tagParts (gormTag f)))"]
  show ?case by (simp add: parts_findings findings_append)
qed

lemma struct_findings:
  "duplicateColumnErrors (validateGormTags [s]) = map snd (columnFindings s)"
  using fields_findings [of s "[]" "fields' s"]
  by (simp add: validateGormTags_single struct_column_errors firstOwner_Nil
        columnFindings_def structColumnUses_def)

lemma findings_owned:
  "firstOwner seen v = Some own \<Longrightarrow>
   filter (\<lambda>x. fst x = v) (columnFindingsFrom s seen us) =
   map (\<lambda>u. (v, Diag (GoStruct.name s) (GormTag.name (fst u)) (gormTag (fst u))
                 (duplicateColumnMessage v own) error (Some (partKey (snd u)))))
     (filter (\<lambda>u. partValue (snd u) = v) us)"
proof (induction us arbitrary: seen)
  case Nil
  then show ?case by simp
next
  case (Cons u us)
  from Cons.prems have "firstOwner (seen @ [u]) v = Some own"
    by (simp add: firstOwner_append)
  from Cons.IH [OF this] Cons.prems show ?case
    by (simp split: option.splits)
qed

lemma findings_fresh:
  "firstOwner seen v = None \<Longrightarrow>
   filter (\<lambda>x. fst x = v) (columnFindingsFrom s seen us) =
   (case filter (\<lambda>u. partValue (snd u) = v) us of
      [] \<Rightarrow> []
    | g # rest \<Rightarrow>
        map (\<lambda>u. (v, Diag (GoStruct.name s) (GormTag.name (fst u)) (gormTag (fst u))
                      (duplicateColumnMessage v (GormTag.name (fst g))) error
                      (Some (partKey (snd u))))) rest)"
proof (induction us arbitrary: seen)
  case Nil
  then show ?case by simp
next
  case (Cons u us)
  show ?case
  proof (cases "partValue (snd u) = v")
    case True
    with Cons.prems have "firstOwner (seen @ [u]) v = Some (GormTag.name (fst u))"
      by (simp add: firstOwner_append firstOwner_single)
    from findings_owned [OF this, of s us] True Cons.prems show ?thesis by simp
  next
    case False
    with Cons.prems have "firstOwner (seen @ [u]) v = None"
      by (simp add: firstOwner_append firstOwner_single)
    from Cons.IH [OF this] False show ?thesis by (simp split: option.splits)
  qed
qed

lemma field_uses_value:
  "filter (\<lambda>u. partValue (snd u) = v) (map (Pair f) ps) =
   map (Pair f) (filter (\<lambda>p. partValue p = v) ps)"
  by (induction ps) simp_all

lemma field_no_use:
  "v \<notin> set (columnEntries (gormTag f)) \<Longrightarrow>
   filter (\<lambda>u. partValue (snd u) = v)
     (map (Pair f) (filter isColumnEntry (tagParts (gormTag f)))) = []"
  by (auto simp: columnEntries_def filter_empty_conv)

lemma fields_no_use:
  "v \<notin> set (concat (map (\<lambda>f. columnEntries (gormTag f)) fs)) \<Longrightarrow>
   filter (\<lambda>u. partValue (snd u) = v)
     (concat (map (\<lambda>f. map (Pair f) (filter isColumnEntry (tagParts (gormTag f)))) fs)) = []"
  by (induction fs) (simp_all add: field_no_use)

lemma count_list_filter: "count_list (map g xs) v = length (filter (\<lambda>x. g x = v) xs)"
  by (induction xs) simp_all

lemma field_one_use:
  assumes "count_list (columnEntries (gormTag f)) v = 1"
  shows "\<exists>p. isColumnEntry p \<and> partValue p = v \<and>
           filter (\<lambda>u. partValue (snd u) = v)
             (map (Pair f) (filter isColumnEntry (tagParts (gormTag f)))) = [(f, p)]"
proof -
  let ?ps = "filter (\<lambda>p. partValue p = v) (filter isColumnEntry (tagParts (gormTag f)))"
  from assms have "length ?ps = 1" by (simp add: columnEntries_def count_list_filter)
  then obtain p where p: "?ps = [p]" by (cases ?ps) simp_all
  then have "p \<in> set ?ps" by simp
  then have "isColumnEntry p" "partValue p = v" by simp_all
  with p show ?thesis by (simp add: field_uses_value)
qed

lemma single_finding:
  assumes "map snd xs = [d]" and "filter (\<lambda>x. fst x = v) xs = [(v, e)]"
  shows "d = e"
proof -
  from assms(1) obtain x where x: "xs = [x]" "snd x = d" by (cases xs) auto
  with assms(2) have "x = (v, e)" by (simp split: if_splits)
  with x show ?thesis by simp
qed

section \<open>Properties of the position locator\<close>

lemma findFieldLoop_struct_absent:
  assumes "\<forall>ln \<in> set lns. \<not> includes_str ln (''type '' @ sName @ '' struct'')"
  shows "findFieldLoop sName fName errTag lns i False False k = Inr (False, k)"
  using assms by (induction lns arbitrary: i) simp_all

lemma findFieldLoop_line_bound:
  "findFieldLoop sName fName errTag lns i inS sf k = Inr (sf', k') \<Longrightarrow> k < int i
     \<Longrightarrow> k' < int i + int (length lns)"
  by (induction sName fName errTag lns i inS sf k rule: findFieldLoop.induct)
     (auto split: if_splits option.splits simp: Let_def)

text \<open>
  Range resolution never throws, whatever the text: the line that the struct fallback
  reads is always one of the lines scanned.
\<close>

lemma findFieldRange_total: "\<exists>r. findFieldRange source sName fName errTag = Inr r"
proof (cases "findFieldLoop sName fName errTag (split (CHR 0x0A) source) 0 False False (- 1)")
  case (Inl r)
  then show ?thesis by (simp add: findFieldRange_def)
next
  case (Inr p)
  obtain sf k where p: "p = (sf, k)" by (cases p)
  from findFieldLoop_line_bound
         [of sName fName errTag "split (CHR 0x0A) source" 0 False False "- 1" sf k] Inr p
  have "k < int (length (split (CHR 0x0A) source))" by simp
  with Inr p show ?thesis by (auto simp: findFieldRange_def Let_def)
qed

text \<open>
  Claim C7, as amended. When no line of the document contains the declaration
  \<open>type <struct> struct\<close> (so that neither the struct nor, therefore, the field is
  found), \<open>findFieldRange\<close> does not throw and returns the range that starts at line 0,
  character 0 and ends at line 0, character 1: a range at the start of the document that
  is one character wide.
\<close>

theorem findFieldRange_struct_absent:
  assumes "\<forall>ln \<in> set (split (CHR 0x0A) source).
             \<not> includes_str ln (''type '' @ sName @ '' struct'')"
  shows "findFieldRange source sName fName errTag =
           Inr \<lparr>start = \<lparr>line = 0, character = 0\<rparr>, end' = \<lparr>line = 0, character = 1\<rparr>\<rparr>"
  using findFieldLoop_struct_absent [OF assms]
  by (simp add: findFieldRange_def)

theorem findFieldRange_struct_absent_witness:
  "\<not> (\<exists>ln \<in> set (split (CHR 0x0A) ''package main'').
        includes_str ln (''type '' @ ''User'' @ '' struct'')) \<and>
   findFieldRange ''package main'' ''User'' ''ID'' (Some ''size'') =
     Inr \<lparr>start = \<lparr>line = 0, character = 0\<rparr>, end' = \<lparr>line = 0, character = 1\<rparr>\<rparr>"
proof -
  have h: "\<forall>ln \<in> set (split (CHR 0x0A) ''package main'').
       \<not> includes_str ln (''type '' @ ''User'' @ '' struct'')"
    by (simp add: includes_str_def)
  from findFieldRange_struct_absent [OF h] h show ?thesis by blast
qed

text \<open>
  Claim C7 as stated asks for a zero-width range (start equal to end at line 0,
  character 0). For the document \<open>package main\<close>, which declares no struct, the range
  returned is not that one.
\<close>

theorem findFieldRange_fallback_not_zero_width:
  "findFieldRange ''package main'' ''User'' ''ID'' None \<noteq>
     Inr \<lparr>start = \<lparr>line = 0, character = 0\<rparr>, end' = \<lparr>line = 0, character = 0\<rparr>\<rparr>"
  by code_simp

section \<open>Properties of the cap\<close>

text \<open>
  Claim C9. A cap of 0 is not applied as zero: the falsy value falls back to 1000, and
  the list handed on for reporting is the first 1000 diagnostics (all of them when there
  are fewer), not the empty list.
\<close>

theorem limitedDiagnostics_cap_zero:
  "maxProblems \<lparr>maxNumberOfProblems = 0\<rparr> = maxNumberOfProblems defaultSettings \<and>
   limitedDiagnostics \<lparr>maxNumberOfProblems = 0\<rparr> ds = take 1000 ds \<and>
   length (limitedDiagnostics \<lparr>maxNumberOfProblems = 0\<rparr> ds) = min 1000 (length ds)"
  by (simp add: limitedDiagnostics_def maxProblems_def slice0_def defaultSettings_def)

section \<open>Conflicts inside one field\<close>

text \<open>
  Claim C1, as amended. Whenever the entries of a field include both \<open>primaryKey\<close> and
  \<open>unique\<close> (keys compared in lower case, in either order), validation emits an error
  for the conflict, attributed to that field, with one of the two messages
  "'primaryKey' and 'unique' cannot be used together" and
  "'unique' and 'primaryKey' cannot be used together". For a struct whose single field
  carries the literal \<open>primaryKey;unique\<close> the whole output is exactly one diagnostic:
  the error of the direction whose second key comes last, attributed to that field.
\<close>

theorem primaryKey_unique_conflict:
  assumes "s \<in> set structs" and "f \<in> set (fields' s)"
      and "''primarykey'' \<in> set (lowerKeys (gormTag f))"
      and "''unique'' \<in> set (lowerKeys (gormTag f))"
  shows "(\<exists>d \<in> set (validateGormTags structs). isPrimaryKeyUniqueError s f d) \<and>
         validateGormTags
           [\<lparr>GoStruct.name = sn,
             fields' = [\<lparr>GormTag.name = fn, type = ty, gormTag = ''primaryKey;unique''\<rparr>]\<rparr>] =
           [Diag sn fn ''primaryKey;unique''
              (quoted ''unique'' @ '' and '' @ quoted ''primaryKey'' @
               '' cannot be used together'') error (Some ''unique'')]"
proof
  from field_diagnostics_reported [OF assms(1,2)] obtain cv where
    sub: "set (partsDiagnostics s f [] cv (tagParts (gormTag f))) \<subseteq>
          set (validateGormTags structs)" by blast
  from assms(3,4) parts_primaryKey_unique [of "[]" "tagParts (gormTag f)" s f cv]
  have "\<exists>d \<in> set (partsDiagnostics s f [] cv (tagParts (gormTag f))).
          isPrimaryKeyUniqueError s f d"
    by (simp add: lowerKeys_def)
  with sub show "\<exists>d \<in> set (validateGormTags structs). isPrimaryKeyUniqueError s f d"
    by blast
  show "validateGormTags
           [\<lparr>GoStruct.name = sn,
             fields' = [\<lparr>GormTag.name = fn, type = ty, gormTag = ''primaryKey;unique''\<rparr>]\<rparr>] =
           [Diag sn fn ''primaryKey;unique''
              (quoted ''unique'' @ '' and '' @ quoted ''primaryKey'' @
               '' cannot be used together'') error (Some ''unique'')]"
    by code_simp
qed

theorem primaryKey_unique_conflict_witness:
  "(\<exists>d \<in> set (validateGormTags
       [\<lparr>GoStruct.name = ''User'',
         fields' = [\<lparr>GormTag.name = ''ID'', type = ''uint'',
                     gormTag = ''unique;primaryKey''\<rparr>]\<rparr>]).
      isPrimaryKeyUniqueError
        \<lparr>GoStruct.name = ''User'',
         fields' = [\<lparr>GormTag.name = ''ID'', type = ''uint'',
                     gormTag = ''unique;primaryKey''\<rparr>]\<rparr>
        \<lparr>GormTag.name = ''ID'', type = ''uint'', gormTag = ''unique;primaryKey''\<rparr> d) \<and>
   validateGormTags
     [\<lparr>GoStruct.name = ''User'',
       fields' = [\<lparr>GormTag.name = ''ID'', type = ''uint'',
                   gormTag = ''primaryKey;unique''\<rparr>]\<rparr>] =
     [Diag ''User'' ''ID'' ''primaryKey;unique''
        (quoted ''unique'' @ '' and '' @ quoted ''primaryKey'' @
         '' cannot be used together'') error (Some ''unique'')]"
proof -
  let ?f = "\<lparr>GormTag.name = ''ID'', type = ''uint'', gormTag = ''unique;primaryKey''\<rparr>"
  let ?s = "\<lparr>GoStruct.name = ''User'', fields' = [?f]\<rparr>"
  have 1: "?s \<in> set [?s]" by simp
  have 2: "?f \<in> set (fields' ?s)" by simp
  have 3: "''primarykey'' \<in> set (lowerKeys (gormTag ?f))" by code_simp
  have 4: "''unique'' \<in> set (lowerKeys (gormTag ?f))" by code_simp
  from primaryKey_unique_conflict [OF 1 2 3 4, of "''User''" "''ID''" "''uint''"]
  show ?thesis .
qed

text \<open>
  Claim C1 as stated expects two errors for the literal \<open>primaryKey;unique\<close>, one per
  direction of the conflict. The number of errors emitted for that struct is not two.
\<close>

theorem primaryKey_unique_not_two_errors:
  "length (errorsOf (validateGormTags
     [\<lparr>GoStruct.name = ''User'',
       fields' = [\<lparr>GormTag.name = ''ID'', type = ''uint'',
                   gormTag = ''primaryKey;unique''\<rparr>]\<rparr>])) \<noteq> 2"
  by code_simp

section \<open>Multiple primary keys\<close>




text \<open>
  Claim C10. The multiplicity check counts \<open>primaryKey\<close> entries, not fields. A field
  whose literal has the \<open>primaryKey\<close> key twice (in any spelling of upper and lower
  case, with other entries around, in a struct with any other fields) adds its name
  twice to the list of primary keys. The multiple-primary-key errors of the struct are
  one for every \<open>primaryKey\<close> entry of every field, so that field alone triggers the
  check, and it receives exactly two of these errors (they are told apart by the field
  name, so this part is for structs whose field names are distinct), and a duplicate-key
  error for \<open>primaryKey\<close> as well.
\<close>

theorem primary_key_twice_in_one_field:
  assumes "f \<in> set (fields' s)"
      and "count_list (lowerKeys (gormTag f)) ''primarykey'' = 2"
  shows "primaryKeyFields (processField s st f) =
           primaryKeyFields st @ [GormTag.name f, GormTag.name f] \<and>
         multiplicityErrors (validateGormTags [s]) =
           concat (map (\<lambda>g. replicate (count_list (lowerKeys (gormTag g)) ''primarykey'')
                        (Diag (GoStruct.name s) (GormTag.name g) (declaredTag s (GormTag.name g))
                           multiplePrimaryKeysMessage error None)) (fields' s)) \<and>
         (distinct (map GormTag.name (fields' s)) \<longrightarrow>
          filter (\<lambda>d. fieldName d = GormTag.name f) (multiplicityErrors (validateGormTags [s])) =
            [Diag (GoStruct.name s) (GormTag.name f) (gormTag f)
               multiplePrimaryKeysMessage error None,
             Diag (GoStruct.name s) (GormTag.name f) (gormTag f)
               multiplePrimaryKeysMessage error None]) \<and>
         (\<exists>d \<in> set (validateGormTags [s]). isDuplicateKeyError s f ''primarykey'' d)"
proof (intro conjI impI)
  have two: "primaryKeyEntries f = [GormTag.name f, GormTag.name f]"
    by (simp add: primaryKeyEntries_eq assms(2) numeral_2_eq_2)
  then show "primaryKeyFields (processField s st f) =
           primaryKeyFields st @ [GormTag.name f, GormTag.name f]"
    by (simp add: processField_primaryKeyFields)
  have e: "primaryKeyEntries =
     (\<lambda>g. replicate (count_list (lowerKeys (gormTag g)) ''primarykey'') (GormTag.name g))"
    by (rule ext) (rule primaryKeyEntries_eq)
  from length_concat_member [OF assms(1), of primaryKeyEntries] two
  have "length (concat (map primaryKeyEntries (fields' s))) > 1" by simp
  then have "multiplicityErrors (validateGormTags [s]) =
     map (\<lambda>n. Diag (GoStruct.name s) n (declaredTag s n) multiplePrimaryKeysMessage error None)
       (concat (map (\<lambda>g. replicate (count_list (lowerKeys (gormTag g)) ''primarykey'')
                       (GormTag.name g)) (fields' s)))"
    by (simp add: struct_multiplicityErrors e [symmetric])
  then show all: "multiplicityErrors (validateGormTags [s]) =
           concat (map (\<lambda>g. replicate (count_list (lowerKeys (gormTag g)) ''primarykey'')
                        (Diag (GoStruct.name s) (GormTag.name g) (declaredTag s (GormTag.name g))
                           multiplePrimaryKeysMessage error None)) (fields' s))"
    by (simp only: map_concat_replicate)
  show "filter (\<lambda>d. fieldName d = GormTag.name f) (multiplicityErrors (validateGormTags [s])) =
            [Diag (GoStruct.name s) (GormTag.name f) (gormTag f)
               multiplePrimaryKeysMessage error None,
             Diag (GoStruct.name s) (GormTag.name f) (gormTag f)
               multiplePrimaryKeysMessage error None]"
    if d: "distinct (map GormTag.name (fields' s))"
  proof -
    have "filter (\<lambda>d. fieldName d = GormTag.name f)
            (concat (map (\<lambda>g. replicate (count_list (lowerKeys (gormTag g)) ''primarykey'')
                        (Diag (GoStruct.name s) (GormTag.name g) (declaredTag s (GormTag.name g))
                           multiplePrimaryKeysMessage error None)) (fields' s))) =
          replicate (count_list (lowerKeys (gormTag f)) ''primarykey'')
            (Diag (GoStruct.name s) (GormTag.name f) (declaredTag s (GormTag.name f))
               multiplePrimaryKeysMessage error None)"
      by (rule filter_concat_replicate_distinct [OF _ d assms(1)]) simp
    then show ?thesis
      by (simp add: all assms(2) numeral_2_eq_2 declaredTag_distinct [OF d assms(1)])
  qed
  have "s \<in> set [s]" by simp
  from field_diagnostics_reported [OF this assms(1)] obtain cv where
    sub: "set (partsDiagnostics s f [] cv (tagParts (gormTag f))) \<subseteq>
          set (validateGormTags [s])" by blast
  from assms(2) parts_duplicate_key [of "tagParts (gormTag f)" "''primarykey''" s f "[]" cv]
  have "\<exists>d \<in> set (partsDiagnostics s f [] cv (tagParts (gormTag f))).
          isDuplicateKeyError s f ''primarykey'' d"
    by (simp add: lowerKeys_def)
  with sub show "\<exists>d \<in> set (validateGormTags [s]). isDuplicateKeyError s f ''primarykey'' d"
    by blast
qed

theorem primary_key_twice_in_one_field_witness:
  "primaryKeyFields
     (processField
        \<lparr>GoStruct.name = ''User'',
         fields' = [\<lparr>GormTag.name = ''ID'', type = ''uint'',
                     gormTag = ''primaryKey;primaryKey''\<rparr>,
                    \<lparr>GormTag.name = ''Name'', type = ''string'', gormTag = ''size:50''\<rparr>]\<rparr>
        initialState
        \<lparr>GormTag.name = ''ID'', type = ''uint'', gormTag = ''primaryKey;primaryKey''\<rparr>) =
     [''ID'', ''ID''] \<and>
   multiplicityErrors (validateGormTags
     [\<lparr>GoStruct.name = ''User'',
       fields' = [\<lparr>GormTag.name = ''ID'', type = ''uint'',
                   gormTag = ''primaryKey;primaryKey''\<rparr>,
                  \<lparr>GormTag.name = ''Name'', type = ''string'', gormTag = ''size:50''\<rparr>]\<rparr>]) =
     [Diag ''User'' ''ID'' ''primaryKey;primaryKey'' multiplePrimaryKeysMessage error None,
      Diag ''User'' ''ID'' ''primaryKey;primaryKey'' multiplePrimaryKeysMessage error None] \<and>
   validateGormTags
     [\<lparr>GoStruct.name = ''User'',
       fields' = [\<lparr>GormTag.name = ''ID'', type = ''uint'',
                   gormTag = ''primaryKey;primaryKey''\<rparr>,
                  \<lparr>GormTag.name = ''Name'', type = ''string'', gormTag = ''size:50''\<rparr>]\<rparr>] =
     [Diag ''User'' ''ID'' ''primaryKey;primaryKey'' (duplicateKeyMessage ''primaryKey'')
        error (Some ''primaryKey''),
      Diag ''User'' ''ID'' ''primaryKey;primaryKey'' multiplePrimaryKeysMessage error None,
      Diag ''User'' ''ID'' ''primaryKey;primaryKey'' multiplePrimaryKeysMessage error None]"
proof -
  let ?f = "\<lparr>GormTag.name = ''ID'', type = ''uint'', gormTag = ''primaryKey;primaryKey''\<rparr>"
  let ?g = "\<lparr>GormTag.name = ''Name'', type = ''string'', gormTag = ''size:50''\<rparr>"
  let ?s = "\<lparr>GoStruct.name = ''User'', fields' = [?f, ?g]\<rparr>"
  have 1: "?f \<in> set (fields' ?s)" by simp
  have 2: "count_list (lowerKeys (gormTag ?f)) ''primarykey'' = 2" by code_simp
  have 3: "count_list (lowerKeys (gormTag ?g)) ''primarykey'' = 0" by code_simp
  have 4: "declaredTag ?s ''ID'' = ''primaryKey;primaryKey''" by code_simp
  have 5: "validateGormTags [?s] =
     [Diag ''User'' ''ID'' ''primaryKey;primaryKey'' (duplicateKeyMessage ''primaryKey'')
        error (Some ''primaryKey''),
      Diag ''User'' ''ID'' ''primaryKey;primaryKey'' multiplePrimaryKeysMessage error None,
      Diag ''User'' ''ID'' ''primaryKey;primaryKey'' multiplePrimaryKeysMessage error None]"
    by code_simp
  note t = primary_key_twice_in_one_field [OF 1 2, of initialState]
  from t have a: "primaryKeyFields (processField ?s initialState ?f) = [''ID'', ''ID'']"
    by (simp add: initialState_def)
  from t have "multiplicityErrors (validateGormTags [?s]) =
           concat (map (\<lambda>g. replicate (count_list (lowerKeys (gormTag g)) ''primarykey'')
                        (Diag (GoStruct.name ?s) (GormTag.name g)
                           (declaredTag ?s (GormTag.name g))
                           multiplePrimaryKeysMessage error None)) (fields' ?s))"
    by blast
  then have b: "multiplicityErrors (validateGormTags [?s]) =
     [Diag ''User'' ''ID'' ''primaryKey;primaryKey'' multiplePrimaryKeysMessage error None,
      Diag ''User'' ''ID'' ''primaryKey;primaryKey'' multiplePrimaryKeysMessage error None]"
    using 2 3 4 by (simp add: numeral_2_eq_2)
  from a b 5 show ?thesis by blast
qed

section \<open>Combination rules that depend on the order of the entries\<close>

text \<open>
  Claim C4. The claim says that a field with a \<open>foreignKey\<close> entry and no
  \<open>references\<close> entry receives the pairing warning ("'foreignKey' should be used
  together with 'references' ..."), and that a field with both entries receives none,
  whatever their order. The combination rules run after every entry of the literal,
  against the keys seen up to that entry. So the field \<open>User\<close> of the struct \<open>Order\<close>
  with the literal \<open>foreignKey:UserID;references:ID\<close> does receive the pairing warning,
  at its \<open>foreignKey\<close> entry, although it uses \<open>foreignKey\<close> together with
  \<open>references\<close> as the message asks. With the two entries in the other order it
  receives none, and with \<open>foreignKey\<close> alone it receives one.
\<close>

theorem foreignKey_before_references_warned:
  "filter (\<lambda>d. message d = pairingMessage)
     (validateGormTags
        [\<lparr>GoStruct.name = ''Order'',
          fields' = [\<lparr>GormTag.name = ''User'', type = ''User'',
                      gormTag = ''foreignKey:UserID;references:ID''\<rparr>]\<rparr>]) =
     [Diag ''Order'' ''User'' ''foreignKey:UserID;references:ID''
        ('''foreignKey' should be used together with 'references' '' @
         ''for proper relationship definition.'')
        warning (Some ''foreignKey'')] \<and>
   filter (\<lambda>d. message d = pairingMessage)
     (validateGormTags
        [\<lparr>GoStruct.name = ''Order'',
          fields' = [\<lparr>GormTag.name = ''User'', type = ''User'',
                      gormTag = ''references:ID;foreignKey:UserID''\<rparr>]\<rparr>]) = [] \<and>
   filter (\<lambda>d. message d = pairingMessage)
     (validateGormTags
        [\<lparr>GoStruct.name = ''Order'',
          fields' = [\<lparr>GormTag.name = ''User'', type = ''User'',
                      gormTag = ''foreignKey:UserID''\<rparr>]\<rparr>]) =
     [Diag ''Order'' ''User'' ''foreignKey:UserID'' pairingMessage warning
        (Some ''foreignKey'')]"
  by code_simp

text \<open>
  Claim C5, as amended. The co-occurrence findings of a struct ("Field has both creation
  and update time tracking ...") are, field by field in declaration order, one for each
  \<open>autoUpdateTime\<close> entry that comes after the first \<open>autoCreateTime\<close> entry of the
  field's literal: exactly one for \<open>autoCreateTime\<close> followed by a single
  \<open>autoUpdateTime\<close>, none when \<open>autoUpdateTime\<close> comes first. Every such finding is
  attributed to its field, has warning severity and never error severity, and carries
  the \<open>autoUpdateTime\<close> key as written.
\<close>

theorem time_tracking_co_occurrence:
  "coOccurrenceFindings (validateGormTags [s]) =
   concat (map (\<lambda>f.
     map (\<lambda>p. Diag (GoStruct.name s) (GormTag.name f) (gormTag f) timeTrackingMessage warning
                 (Some (partKey p)))
       (filter (\<lambda>p. lowerKeyOf p = ''autoupdatetime'')
          (drop 1 (dropWhile (\<lambda>p. lowerKeyOf p \<noteq> ''autocreatetime'')
             (tagParts (gormTag f)))))) (fields' s))"
  by (simp add: validateGormTags_single struct_time_findings)
     (simp add: coOccurrenceFindings_def fields_time)

theorem time_tracking_co_occurrence_witness:
  "coOccurrenceFindings
     (validateGormTags
        [\<lparr>GoStruct.name = ''User'',
          fields' = [\<lparr>GormTag.name = ''CreatedAt'', type = ''time.Time'',
                      gormTag = ''autoCreateTime''\<rparr>,
                     \<lparr>GormTag.name = ''UpdatedAt'', type = ''time.Time'',
                      gormTag = ''autoCreateTime;autoUpdateTime''\<rparr>]\<rparr>]) =
   [Diag ''User'' ''UpdatedAt'' ''autoCreateTime;autoUpdateTime'' timeTrackingMessage
      warning (Some ''autoUpdateTime'')]"
proof -
  let ?f = "\<lparr>GormTag.name = ''CreatedAt'', type = ''time.Time'',
             gormTag = ''autoCreateTime''\<rparr>"
  let ?g = "\<lparr>GormTag.name = ''UpdatedAt'', type = ''time.Time'',
             gormTag = ''autoCreateTime;autoUpdateTime''\<rparr>"
  let ?s = "\<lparr>GoStruct.name = ''User'', fields' = [?f, ?g]\<rparr>"
  have 1: "concat (map (\<lambda>f. map (\<lambda>p. Diag (GoStruct.name ?s) (GormTag.name f) (gormTag f)
                                 timeTrackingMessage warning (Some (partKey p)))
       (filter (\<lambda>p. lowerKeyOf p = ''autoupdatetime'')
          (drop 1 (dropWhile (\<lambda>p. lowerKeyOf p \<noteq> ''autocreatetime'')
             (tagParts (gormTag f)))))) (fields' ?s)) =
   [Diag ''User'' ''UpdatedAt'' ''autoCreateTime;autoUpdateTime'' timeTrackingMessage
      warning (Some ''autoUpdateTime'')]"
    by code_simp
  from time_tracking_co_occurrence [of ?s] show ?thesis by (simp only: 1)
qed

text \<open>
  Claim C5 as stated promises exactly one finding in either order. With
  \<open>autoUpdateTime\<close> before \<open>autoCreateTime\<close> the number of findings is not one.
\<close>

theorem time_tracking_update_first_no_finding:
  "length (coOccurrenceFindings
     (validateGormTags
        [\<lparr>GoStruct.name = ''User'',
          fields' = [\<lparr>GormTag.name = ''UpdatedAt'', type = ''time.Time'',
                      gormTag = ''autoUpdateTime;autoCreateTime''\<rparr>]\<rparr>])) \<noteq> 1"
  by code_simp

section \<open>Column names shared by two fields\<close>

text \<open>
  Claim C2, as amended. Let exactly two fields of a struct, \<open>fi\<close> before \<open>fj\<close> in
  declaration order, carry a \<open>column\<close> entry with the value \<open>v\<close>, each of them once.
  The duplicate-column errors of the struct ("Duplicate column name ...") are the
  findings of the column check, \<open>columnFindings\<close>: every use of a column value after its
  first use is reported, against the field of the first use. Exactly one of them is for
  the value \<open>v\<close>: an error attributed to the later field \<open>fj\<close>, whose message names
  \<open>v\<close> and the earlier field \<open>fi\<close> as its owner, and whose error tag is the \<open>column\<close>
  key as written. The earlier field gets none. When no other column value is used twice
  in the struct, this error is the only duplicate-column error of the struct.
\<close>

theorem duplicate_column_one_error:
  assumes "fields' s = pre @ [fi] @ mid @ [fj] @ post"
      and "v \<in> set (columnEntries (gormTag fi))"
      and "v \<in> set (columnEntries (gormTag fj))"
      and "count_list (structColumnEntries s) v = 2"
  shows "duplicateColumnErrors (validateGormTags [s]) = map snd (columnFindings s) \<and>
         (\<exists>key. toLowerCase key = ''column'' \<and>
            filter (\<lambda>x. fst x = v) (columnFindings s) =
              [(v, Diag (GoStruct.name s) (GormTag.name fj) (gormTag fj)
                     (duplicateColumnMessage v (GormTag.name fi)) error (Some key))] \<and>
            (distinct (removeAll v (structColumnEntries s)) \<longrightarrow>
             duplicateColumnErrors (validateGormTags [s]) =
               [Diag (GoStruct.name s) (GormTag.name fj) (gormTag fj)
                  (duplicateColumnMessage v (GormTag.name fi)) error (Some key)]))"
proof -
  let ?E = "\<lambda>fs. concat (map (\<lambda>f. columnEntries (gormTag f)) fs)"
  let ?U = "\<lambda>fs. concat (map (\<lambda>f. map (Pair f) (filter isColumnEntry (tagParts (gormTag f)))) fs)"
  let ?V = "\<lambda>u. partValue (snd u) = v"
  let ?D = "\<lambda>key. Diag (GoStruct.name s) (GormTag.name fj) (gormTag fj)
                  (duplicateColumnMessage v (GormTag.name fi)) error (Some key)"
  have all: "structColumnEntries s =
      ?E pre @ columnEntries (gormTag fi) @ ?E mid @ columnEntries (gormTag fj) @ ?E post"
    by (simp add: structColumnEntries_def assms(1))
  note c = twice_counts [OF assms(2,3) assms(4) [unfolded all]]
  from field_one_use [OF c(4)] obtain p1 where
    p1: "filter ?V (map (Pair fi) (filter isColumnEntry (tagParts (gormTag fi)))) = [(fi, p1)]"
    by blast
  from field_one_use [OF c(5)] obtain p2 where col: "isColumnEntry p2"
    and p2: "filter ?V (map (Pair fj) (filter isColumnEntry (tagParts (gormTag fj)))) = [(fj, p2)]"
    by blast
  have uses: "filter ?V (structColumnUses s) = [(fi, p1), (fj, p2)]"
    by (simp add: structColumnUses_def assms(1) fields_no_use [OF c(1)]
          fields_no_use [OF c(2)] fields_no_use [OF c(3)] p1 p2)
  have 1: "duplicateColumnErrors (validateGormTags [s]) = map snd (columnFindings s)"
    by (rule struct_findings)
  have "firstOwner [] v = None" by (simp add: firstOwner_Nil)
  from findings_fresh [OF this, of s "structColumnUses s"]
  have 2: "filter (\<lambda>x. fst x = v) (columnFindings s) = [(v, ?D (partKey p2))]"
    by (simp add: columnFindings_def uses)
  from col have key: "toLowerCase (partKey p2) = ''column''"
    by (simp add: isColumnEntry_def lowerKeyOf_def)
  have 3: "duplicateColumnErrors (validateGormTags [s]) = [?D (partKey p2)]"
    if "distinct (removeAll v (structColumnEntries s))"
  proof -
    from duplicate_column_only_error [OF assms that] obtain key' where
      "duplicateColumnErrors (validateGormTags [s]) = [?D key']" by blast
    moreover from this 1 have "map snd (columnFindings s) = [?D key']" by simp
    from single_finding [OF this 2] have "?D key' = ?D (partKey p2)" .
    ultimately show ?thesis by simp
  qed
  from 1 2 3 key show ?thesis by blast
qed

theorem duplicate_column_one_error_witness:
  "(\<exists>key. toLowerCase key = ''column'' \<and>
      duplicateColumnErrors
        (validateGormTags
           [\<lparr>GoStruct.name = ''User'',
             fields' = [\<lparr>GormTag.name = ''ID'', type = ''uint'',
                          gormTag = ''primaryKey;column:user_id''\<rparr>,
                        \<lparr>GormTag.name = ''Name'', type = ''string'',
                          gormTag = ''column:name;size:100''\<rparr>,
                        \<lparr>GormTag.name = ''UserID'', type = ''uint'',
                          gormTag = ''column:user_id''\<rparr>]\<rparr>]) =
      [Diag ''User'' ''UserID'' ''column:user_id''
         (duplicateColumnMessage ''user_id'' ''ID'') error (Some key)]) \<and>
   duplicateColumnMessage ''user_id'' ''ID'' =
     ''Duplicate column name 'user_id' already used by field 'ID'. '' @
     ''Each column name must be unique within the struct.'' \<and>
   (\<exists>key. toLowerCase key = ''column'' \<and>
      filter (\<lambda>x. fst x = ''x'')
        (columnFindings
           \<lparr>GoStruct.name = ''T'',
            fields' = [\<lparr>GormTag.name = ''A'', type = ''string'', gormTag = ''column:x''\<rparr>,
                       \<lparr>GormTag.name = ''B'', type = ''string'', gormTag = ''column:y''\<rparr>,
                       \<lparr>GormTag.name = ''C'', type = ''string'',
                         gormTag = ''column:y;column:x''\<rparr>]\<rparr>) =
      [(''x'', Diag ''T'' ''C'' ''column:y;column:x'' (duplicateColumnMessage ''x'' ''A'')
                 error (Some key))]) \<and>
   duplicateColumnErrors
     (validateGormTags
        [\<lparr>GoStruct.name = ''T'',
          fields' = [\<lparr>GormTag.name = ''A'', type = ''string'', gormTag = ''column:x''\<rparr>,
                     \<lparr>GormTag.name = ''B'', type = ''string'', gormTag = ''column:y''\<rparr>,
                     \<lparr>GormTag.name = ''C'', type = ''string'',
                       gormTag = ''column:y;column:x''\<rparr>]\<rparr>]) =
     [Diag ''T'' ''C'' ''column:y;column:x'' (duplicateColumnMessage ''y'' ''B'') error
        (Some ''column''),
      Diag ''T'' ''C'' ''column:y;column:x'' (duplicateColumnMessage ''x'' ''A'') error
        (Some ''column'')]"
proof -
  let ?fi = "\<lparr>GormTag.name = ''ID'', type = ''uint'',
              gormTag = ''primaryKey;column:user_id''\<rparr>"
  let ?fm = "\<lparr>GormTag.name = ''Name'', type = ''string'',
              gormTag = ''column:name;size:100''\<rparr>"
  let ?fj = "\<lparr>GormTag.name = ''UserID'', type = ''uint'', gormTag = ''column:user_id''\<rparr>"
  let ?s = "\<lparr>GoStruct.name = ''User'', fields' = [?fi, ?fm, ?fj]\<rparr>"
  have 1: "fields' ?s = [] @ [?fi] @ [?fm] @ [?fj] @ []" by simp
  have 2: "''user_id'' \<in> set (columnEntries (gormTag ?fi))" by code_simp
  have 3: "''user_id'' \<in> set (columnEntries (gormTag ?fj))" by code_simp
  have 4: "count_list (structColumnEntries ?s) ''user_id'' = 2" by code_simp
  have 5: "distinct (removeAll ''user_id'' (structColumnEntries ?s))" by code_simp
  have 6: "duplicateColumnMessage ''user_id'' ''ID'' =
     ''Duplicate column name 'user_id' already used by field 'ID'. '' @
     ''Each column name must be unique within the struct.''"
    by code_simp
  from duplicate_column_one_error [OF 1 2 3 4] 5
  have a: "\<exists>key. toLowerCase key = ''column'' \<and>
      duplicateColumnErrors (validateGormTags [?s]) =
      [Diag ''User'' ''UserID'' ''column:user_id''
         (duplicateColumnMessage ''user_id'' ''ID'') error (Some key)]"
    by auto
  let ?a = "\<lparr>GormTag.name = ''A'', type = ''string'', gormTag = ''column:x''\<rparr>"
  let ?b = "\<lparr>GormTag.name = ''B'', type = ''string'', gormTag = ''column:y''\<rparr>"
  let ?c = "\<lparr>GormTag.name = ''C'', type = ''string'', gormTag = ''column:y;column:x''\<rparr>"
  let ?t = "\<lparr>GoStruct.name = ''T'', fields' = [?a, ?b, ?c]\<rparr>"
  have 7: "fields' ?t = [] @ [?a] @ [?b] @ [?c] @ []" by simp
  have 8: "''x'' \<in> set (columnEntries (gormTag ?a))" by code_simp
  have 9: "''x'' \<in> set (columnEntries (gormTag ?c))" by code_simp
  have 10: "count_list (structColumnEntries ?t) ''x'' = 2" by code_simp
  have 11: "map snd (columnFindings ?t) =
     [Diag ''T'' ''C'' ''column:y;column:x'' (duplicateColumnMessage ''y'' ''B'') error
        (Some ''column''),
      Diag ''T'' ''C'' ''column:y;column:x'' (duplicateColumnMessage ''x'' ''A'') error
        (Some ''column'')]"
    by code_simp
  note t = duplicate_column_one_error [OF 7 8 9 10]
  from t have b: "\<exists>key. toLowerCase key = ''column'' \<and>
      filter (\<lambda>x. fst x = ''x'') (columnFindings ?t) =
      [(''x'', Diag ''T'' ''C'' ''column:y;column:x'' (duplicateColumnMessage ''x'' ''A'')
                 error (Some key))]"
    by auto
  from t 11 have c: "duplicateColumnErrors (validateGormTags [?t]) =
     [Diag ''T'' ''C'' ''column:y;column:x'' (duplicateColumnMessage ''y'' ''B'') error
        (Some ''column''),
      Diag ''T'' ''C'' ''column:y;column:x'' (duplicateColumnMessage ''x'' ''A'') error
        (Some ''column'')]"
    by simp
  from a 6 b c show ?thesis by blast
qed

text \<open>
  Claim C2 as stated promises exactly one diagnostic whenever two fields carry a
  \<open>column\<close> entry with the same value. The check runs once for every entry, so a later
  field that repeats the entry is reported once for each repetition: with \<open>A\<close> carrying
  \<open>column:x\<close> and \<open>B\<close> carrying \<open>column:x;column:x\<close> there are two such errors, both
  attributed to \<open>B\<close> and naming \<open>A\<close>.
\<close>

theorem duplicate_column_repeated_entry_two_errors:
  "duplicateColumnErrors
     (validateGormTags
        [\<lparr>GoStruct.name = ''T'',
          fields' = [\<lparr>GormTag.name = ''A'', type = ''string'', gormTag = ''column:x''\<rparr>,
                     \<lparr>GormTag.name = ''B'', type = ''string'',
                       gormTag = ''column:x;column:x''\<rparr>]\<rparr>]) =
   [Diag ''T'' ''B'' ''column:x;column:x'' (duplicateColumnMessage ''x'' ''A'') error
      (Some ''column''),
    Diag ''T'' ''B'' ''column:x;column:x'' (duplicateColumnMessage ''x'' ''A'') error
      (Some ''column'')] \<and>
   length (duplicateColumnErrors
     (validateGormTags
        [\<lparr>GoStruct.name = ''T'',
          fields' = [\<lparr>GormTag.name = ''A'', type = ''string'', gormTag = ''column:x''\<rparr>,
                     \<lparr>GormTag.name = ''B'', type = ''string'',
                       gormTag = ''column:x;column:x''\<rparr>]\<rparr>])) \<noteq> 1"
  by code_simp

section \<open>Quote balance of a comment value\<close>

text \<open>
  Claim C6. The quote-balance check of a \<open>comment\<close> value, \<open>checkQuoteClosure\<close>, counts
  the quotes of each kind as follows: the quotes right after a backslash are left out
  (\<open>unescapedQuoteChars\<close>); of the remaining ones, a quote outside every span opens a
  span and is counted, the next quote of that kind closes the span and is counted, and
  the quotes of the other kind in between are not counted (\<open>countedQuotes\<close>). The check
  reports an error exactly when the count of single quotes or the count of double quotes
  is odd. An odd count gives one error, which names the kind and cites the count (the
  single quotes first); even counts give no error. The value \<open>it's\<close> gives the error
  citing 1 single quote, the value \<open>a\'b\<close> gives no diagnostic, a value with both kinds
  of quote, each count even, gives the mixed-quote-style warning and nothing else, and
  the value \<open>'a' "b\<close> gives the error citing 1 double quote and the mixed-quote-style
  warning.
\<close>

theorem comment_quote_balance:
  "singleQuoteCount (quoteScan v) =
     count_list (countedQuotes None (unescapedQuoteChars None v)) apostrophe \<and>
   doubleQuoteCount (quoteScan v) =
     count_list (countedQuotes None (unescapedQuoteChars None v)) dquote \<and>
   (hasError (checkQuoteClosure v) \<longleftrightarrow>
      odd (count_list (countedQuotes None (unescapedQuoteChars None v)) apostrophe) \<or>
      odd (count_list (countedQuotes None (unescapedQuoteChars None v)) dquote)) \<and>
   (odd (count_list (countedQuotes None (unescapedQuoteChars None v)) apostrophe) \<longrightarrow>
      errorsOf (validateTagValue ''comment'' v sn fn t ok) =
        [Diag sn fn t
           (unmatchedQuotesMessage ''single''
              (count_list (countedQuotes None (unescapedQuoteChars None v)) apostrophe))
           error (Some (orKey ok ''comment''))]) \<and>
   (even (count_list (countedQuotes None (unescapedQuoteChars None v)) apostrophe) \<longrightarrow>
    odd (count_list (countedQuotes None (unescapedQuoteChars None v)) dquote) \<longrightarrow>
      errorsOf (validateTagValue ''comment'' v sn fn t ok) =
        [Diag sn fn t
           (unmatchedQuotesMessage ''double''
              (count_list (countedQuotes None (unescapedQuoteChars None v)) dquote))
           error (Some (orKey ok ''comment''))]) \<and>
   (even (count_list (countedQuotes None (unescapedQuoteChars None v)) apostrophe) \<longrightarrow>
    even (count_list (countedQuotes None (unescapedQuoteChars None v)) dquote) \<longrightarrow>
      errorsOf (validateTagValue ''comment'' v sn fn t ok) = []) \<and>
   (apostrophe \<in> set v \<longrightarrow> dquote \<in> set v \<longrightarrow>
    even (count_list (countedQuotes None (unescapedQuoteChars None v)) apostrophe) \<longrightarrow>
    even (count_list (countedQuotes None (unescapedQuoteChars None v)) dquote) \<longrightarrow>
      validateTagValue ''comment'' v sn fn t ok =
        [Diag sn fn t mixedQuotesMessage warning (Some (orKey ok ''comment''))]) \<and>
   validateTagValue ''comment'' ''it's'' sn fn t ok =
     [Diag sn fn t
        (''Comment value has unmatched single quotes. '' @
         ''Found 1 single quotes, expected even number for proper closure.'')
        error (Some (orKey ok ''comment''))] \<and>
   validateTagValue ''comment'' [CHR ''a'', backslash, apostrophe, CHR ''b''] sn fn t ok = [] \<and>
   validateTagValue ''comment''
     [apostrophe, CHR ''a'', apostrophe, CHR '' '', dquote, CHR ''b''] sn fn t ok =
     [Diag sn fn t
        (''Comment value has unmatched double quotes. '' @
         ''Found 1 double quotes, expected even number for proper closure.'')
        error (Some (orKey ok ''comment'')),
      Diag sn fn t mixedQuotesMessage warning (Some (orKey ok ''comment''))]"
proof -
  let ?s = "count_list (countedQuotes None (unescapedQuoteChars None v)) apostrophe"
  let ?d = "count_list (countedQuotes None (unescapedQuoteChars None v)) dquote"
  have s: "singleQuoteCount (quoteScan v) = ?s" and d: "doubleQuoteCount (quoteScan v) = ?d"
    using quoteScan_counted [of v] by simp_all
  have e: "hasError (checkQuoteClosure v) \<longleftrightarrow> odd ?s \<or> odd ?d"
    using checkQuoteClosure_hasError [of v] by (simp only: s d)
  have a: "errorsOf (validateTagValue ''comment'' v sn fn t ok) =
        [Diag sn fn t (unmatchedQuotesMessage ''single'' ?s)
           error (Some (orKey ok ''comment''))]"
    if "odd ?s"
  proof -
    from that have o: "odd (singleQuoteCount (quoteScan v))" by (simp add: s)
    from comment_unbalanced_single [OF o odd_single_has_value [OF o]]
    show ?thesis by (simp only: s)
  qed
  have b: "errorsOf (validateTagValue ''comment'' v sn fn t ok) =
        [Diag sn fn t (unmatchedQuotesMessage ''double'' ?d)
           error (Some (orKey ok ''comment''))]"
    if "even ?s" "odd ?d"
  proof -
    from that have o: "even (singleQuoteCount (quoteScan v))"
      "odd (doubleQuoteCount (quoteScan v))" by (simp_all add: s d)
    from comment_unbalanced_double [OF o odd_double_has_value [OF o(2)]]
    show ?thesis by (simp only: d)
  qed
  have c: "errorsOf (validateTagValue ''comment'' v sn fn t ok) = []"
    if "even ?s" "even ?d"
  proof -
    from that have o: "even (singleQuoteCount (quoteScan v))"
      "even (doubleQuoteCount (quoteScan v))" by (simp_all add: s d)
    then show ?thesis by (rule comment_balanced)
  qed
  have m: "validateTagValue ''comment'' v sn fn t ok =
        [Diag sn fn t mixedQuotesMessage warning (Some (orKey ok ''comment''))]"
    if "apostrophe \<in> set v" "dquote \<in> set v" "even ?s" "even ?d"
  proof -
    from that have o: "even (singleQuoteCount (quoteScan v))"
      "even (doubleQuoteCount (quoteScan v))" by (simp_all add: s d)
    from that(1,2) o show ?thesis by (rule comment_mixed_balanced)
  qed
  have x1: "validateTagValue ''comment'' ''it's'' sn fn t ok =
     [Diag sn fn t
        (''Comment value has unmatched single quotes. '' @
         ''Found 1 single quotes, expected even number for proper closure.'')
        error (Some (orKey ok ''comment''))]"
    by code_simp
  have x2: "validateTagValue ''comment'' [CHR ''a'', backslash, apostrophe, CHR ''b''] sn fn t ok
            = []"
    by code_simp
  have x3: "validateTagValue ''comment''
     [apostrophe, CHR ''a'', apostrophe, CHR '' '', dquote, CHR ''b''] sn fn t ok =
     [Diag sn fn t
        (''Comment value has unmatched double quotes. '' @
         ''Found 1 double quotes, expected even number for proper closure.'')
        error (Some (orKey ok ''comment'')),
      Diag sn fn t mixedQuotesMessage warning (Some (orKey ok ''comment''))]"
    by code_simp
  from s d e a b c m x1 x2 x3 show ?thesis by blast
qed

theorem comment_quote_balance_witness:
  "validateTagValue ''comment'' [dquote, CHR ''i'', CHR ''t'', apostrophe, CHR ''s'', dquote]
     ''User'' ''Bio'' ''comment:x'' (Some ''comment'') =
     [Diag ''User'' ''Bio'' ''comment:x'' mixedQuotesMessage warning (Some ''comment'')] \<and>
   errorsOf (validateTagValue ''comment'' [dquote, CHR ''a'', apostrophe] ''User'' ''Bio''
     ''comment:x'' (Some ''comment'')) =
     [Diag ''User'' ''Bio'' ''comment:x'' (unmatchedQuotesMessage ''double'' 1) error
        (Some ''comment'')] \<and>
   errorsOf (validateTagValue ''comment'' [apostrophe, CHR ''a'', dquote] ''User'' ''Bio''
     ''comment:x'' (Some ''comment'')) =
     [Diag ''User'' ''Bio'' ''comment:x'' (unmatchedQuotesMessage ''single'' 1) error
        (Some ''comment'')] \<and>
   singleQuoteCount (quoteScan [apostrophe, CHR ''a'', apostrophe, CHR '' '', dquote, CHR ''b''])
     = 2"
proof -
  let ?v = "[dquote, CHR ''i'', CHR ''t'', apostrophe, CHR ''s'', dquote]"
  let ?w = "[dquote, CHR ''a'', apostrophe]"
  let ?u = "[apostrophe, CHR ''a'', dquote]"
  let ?x = "[apostrophe, CHR ''a'', apostrophe, CHR '' '', dquote, CHR ''b'']"
  let ?n = "\<lambda>q v. count_list (countedQuotes None (unescapedQuoteChars None v)) q"
  have 1: "apostrophe \<in> set ?v" "dquote \<in> set ?v" by simp_all
  have 2: "?n apostrophe ?v = 0" "?n dquote ?v = 2" by code_simp+
  have 3: "?n apostrophe ?w = 0" "?n dquote ?w = 1" by code_simp+
  have 4: "?n apostrophe ?u = 1" by code_simp
  have 5: "?n apostrophe ?x = 2" by code_simp
  have 6: "orKey (Some ''comment'') ''comment'' = ''comment''" by (simp add: orKey_def)
  from comment_quote_balance [of ?v "''User''" "''Bio''" "''comment:x''" "Some ''comment''"]
    1 2 6
  have a: "validateTagValue ''comment'' ?v ''User'' ''Bio'' ''comment:x'' (Some ''comment'') =
     [Diag ''User'' ''Bio'' ''comment:x'' mixedQuotesMessage warning (Some ''comment'')]"
    by simp
  from comment_quote_balance [of ?w "''User''" "''Bio''" "''comment:x''" "Some ''comment''"]
    3 6
  have b: "errorsOf (validateTagValue ''comment'' ?w ''User'' ''Bio'' ''comment:x''
       (Some ''comment'')) =
     [Diag ''User'' ''Bio'' ''comment:x'' (unmatchedQuotesMessage ''double'' 1) error
        (Some ''comment'')]"
    by simp
  from comment_quote_balance [of ?u "''User''" "''Bio''" "''comment:x''" "Some ''comment''"]
    4 6
  have c: "errorsOf (validateTagValue ''comment'' ?u ''User'' ''Bio'' ''comment:x''
       (Some ''comment'')) =
     [Diag ''User'' ''Bio'' ''comment:x'' (unmatchedQuotesMessage ''single'' 1) error
        (Some ''comment'')]"
    by simp
  from comment_quote_balance [of ?x "''User''" "''Bio''" "''comment:x''" "Some ''comment''"] 5
  have d: "singleQuoteCount (quoteScan ?x) = 2" by simp
  from a b c d show ?thesis by blast
qed

end
